theory Spec2Isabelle
  imports Complex_Main "HOL-Library.Sublist" "HOL-Library.State_Monad"
begin

section \<open>Numbers of the source language\<close>

text \<open>
  The TypeScript sources compute with \<^verbatim>\<open>number\<close>, the IEEE 754 double precision
  format. A \<^verbatim>\<open>number\<close> is \<^verbatim>\<open>NaN\<close>, one of the two infinities, or a finite double,
  which is held as the real number it denotes. The two zeros are one value \<open>Finite 0\<close>:
  the functions embedded here compare, add, multiply, print and divide by non-zero
  numbers only, and none of these tells the zeros apart.
\<close>

datatype number = NaN | NegInfinity | Finite real | Infinity

text \<open>
  \<open>ilog2 x\<close> is the exponent \<open>k\<close> with \<open>2^k \<le> x < 2^(k+1)\<close> of a positive \<open>x\<close>
  (lemma \<open>ilog2_bounds\<close>).
\<close>

function ilog2 :: "real \<Rightarrow> int" where
  "ilog2 x = (if x \<le> 0 then 0
              else if x < 1 then ilog2 (2 * x) - 1
              else if 2 \<le> x then ilog2 (x / 2) + 1
              else 0)"
  by pat_completeness auto
termination
proof (relation "measure (\<lambda>x. nat \<lfloor>x\<rfloor> + 2 * nat \<lceil>1 / x\<rceil>)")
  show "wf (measure (\<lambda>x. nat \<lfloor>x\<rfloor> + 2 * nat \<lceil>1 / x\<rceil>))" by simp
next
  fix x :: real
  assume a: "\<not> x \<le> 0" "x < 1"
  then have y: "1 < 1 / x" by simp
  then have c2: "2 \<le> \<lceil>1 / x\<rceil>" by linarith
  have "1 / (2 * x) = (1 / x) / 2" by simp
  also have "\<dots> \<le> of_int \<lceil>1 / x\<rceil> / 2" by (simp add: divide_right_mono)
  also have "\<dots> \<le> of_int (\<lceil>1 / x\<rceil> - 1)" using c2 by simp
  finally have "\<lceil>1 / (2 * x)\<rceil> \<le> \<lceil>1 / x\<rceil> - 1" by (simp only: ceiling_le_iff)
  with c2 have c: "nat \<lceil>1 / (2 * x)\<rceil> + 1 \<le> nat \<lceil>1 / x\<rceil>" by linarith
  have "\<lfloor>2 * x\<rfloor> \<le> 1" using a by linarith
  then have f: "nat \<lfloor>2 * x\<rfloor> \<le> 1" by linarith
  have "\<lfloor>x\<rfloor> = 0" using a by linarith
  with c f show "(2 * x, x) \<in> measure (\<lambda>x. nat \<lfloor>x\<rfloor> + 2 * nat \<lceil>1 / x\<rceil>)"
    by simp
next
  fix x :: real
  assume a: "\<not> x \<le> 0" "\<not> x < 1" "2 \<le> x"
  then have "x / 2 \<le> x - 1" by simp
  then have "\<lfloor>x / 2\<rfloor> \<le> \<lfloor>x - 1\<rfloor>" by (rule floor_mono)
  then have f: "\<lfloor>x / 2\<rfloor> < \<lfloor>x\<rfloor>" by simp
  have "0 < 1 / x" "1 / x \<le> 1" using a by simp_all
  then have c1: "\<lceil>1 / x\<rceil> = 1" by linarith
  have "0 < 1 / (x / 2)" "1 / (x / 2) \<le> 1" using a by simp_all
  then have c2: "\<lceil>1 / (x / 2)\<rceil> = 1" by linarith
  have "0 < \<lfloor>x\<rfloor>" using a by linarith
  with f c1 c2 show "(x / 2, x) \<in> measure (\<lambda>x. nat \<lfloor>x\<rfloor> + 2 * nat \<lceil>1 / x\<rceil>)"
    by simp
qed

declare ilog2.simps [simp del]

text \<open>Rounding to the nearest integer, a tie going to the even one.\<close>

definition round_half_even :: "real \<Rightarrow> int" where
  "round_half_even y =
     (let f = \<lfloor>y\<rfloor>; d = y - of_int f
      in if d < 1 / 2 then f else if 1 / 2 < d then f + 1 else if even f then f else f + 1)"

text \<open>
  The doubles around \<open>x\<close> are the integral multiples of \<open>2\<close> to the power
  \<open>ulp_exponent x\<close>: 53 significant bits in the binade of \<open>x\<close>, and the fixed spacing
  \<open>2^(-1074)\<close> of the subnormal numbers under \<open>2^(-1022)\<close>.
\<close>

definition ulp_exponent :: "real \<Rightarrow> int" where
  "ulp_exponent x = max (ilog2 \<bar>x\<bar>) (- 1022) - 52"

text \<open>
  \<open>fl x\<close> is the double that an operation with the exact result \<open>x\<close> returns: \<open>x\<close>
  rounded to the nearest double, a tie going to the even significand, and an infinity as
  soon as the rounded magnitude reaches \<open>2^1024\<close>. A real is a double when rounding
  leaves it as it is.
\<close>

definition fl :: "real \<Rightarrow> number" where
  "fl x =
     (if x = 0 then Finite 0
      else
        let e = ulp_exponent x;
            m = round_half_even (x / 2 powi e);
            v = of_int m * 2 powi e
        in if 2 ^ 1024 \<le> \<bar>v\<bar> then (if 0 < x then Infinity else NegInfinity)
           else Finite v)"

definition is_double :: "real \<Rightarrow> bool" where
  "is_double x \<longleftrightarrow> fl x = Finite x"

text \<open>A decimal literal of the source denotes the double nearest to it.\<close>

definition lit :: "real \<Rightarrow> number" where
  "lit x = fl x"

text \<open>
  The arithmetic operators round the exact result; the cases with \<^verbatim>\<open>NaN\<close> and the
  infinities follow IEEE 754. The source divides by 16, by an array length that is not
  zero and by the result of \<open>findGCD\<close>.
\<close>

fun fneg :: "number \<Rightarrow> number" where
  "fneg NaN = NaN"
| "fneg Infinity = NegInfinity"
| "fneg NegInfinity = Infinity"
| "fneg (Finite a) = Finite (- a)"

fun fadd :: "number \<Rightarrow> number \<Rightarrow> number" where
  "fadd (Finite a) (Finite b) = fl (a + b)"
| "fadd NaN _ = NaN"
| "fadd _ NaN = NaN"
| "fadd Infinity NegInfinity = NaN"
| "fadd NegInfinity Infinity = NaN"
| "fadd Infinity _ = Infinity"
| "fadd _ Infinity = Infinity"
| "fadd NegInfinity _ = NegInfinity"
| "fadd _ NegInfinity = NegInfinity"

definition fsub :: "number \<Rightarrow> number \<Rightarrow> number" where
  "fsub a b = fadd a (fneg b)"

fun fsgn :: "number \<Rightarrow> real" where
  "fsgn (Finite a) = sgn a"
| "fsgn Infinity = 1"
| "fsgn NegInfinity = - 1"
| "fsgn NaN = 0"

definition signed_infinity :: "real \<Rightarrow> number" where
  "signed_infinity s = (if 0 < s then Infinity else if s < 0 then NegInfinity else NaN)"

fun fmul :: "number \<Rightarrow> number \<Rightarrow> number" where
  "fmul (Finite a) (Finite b) = fl (a * b)"
| "fmul NaN _ = NaN"
| "fmul _ NaN = NaN"
| "fmul a b = signed_infinity (fsgn a * fsgn b)"

fun fdiv :: "number \<Rightarrow> number \<Rightarrow> number" where
  "fdiv (Finite a) (Finite b) = (if b = 0 then signed_infinity (sgn a) else fl (a / b))"
| "fdiv NaN _ = NaN"
| "fdiv _ NaN = NaN"
| "fdiv (Finite a) _ = Finite 0"
| "fdiv a (Finite b) = signed_infinity (fsgn a * (if b < 0 then - 1 else 1))"
| "fdiv _ _ = NaN"

text \<open>
  The comparisons \<^verbatim>\<open><\<close>, \<^verbatim>\<open>>\<close>, \<^verbatim>\<open>===\<close> and \<^verbatim>\<open>>=\<close>. Every comparison with
  \<^verbatim>\<open>NaN\<close> is false.
\<close>

fun lt :: "number \<Rightarrow> number \<Rightarrow> bool" where
  "lt (Finite a) (Finite b) = (a < b)"
| "lt NaN _ = False"
| "lt _ NaN = False"
| "lt NegInfinity b = (b \<noteq> NegInfinity)"
| "lt Infinity _ = False"
| "lt (Finite a) Infinity = True"
| "lt (Finite a) NegInfinity = False"

definition gt :: "number \<Rightarrow> number \<Rightarrow> bool" where
  "gt a b = lt b a"

fun strict_eq :: "number \<Rightarrow> number \<Rightarrow> bool" where
  "strict_eq NaN _ = False"
| "strict_eq _ NaN = False"
| "strict_eq a b = (a = b)"

definition ge :: "number \<Rightarrow> number \<Rightarrow> bool" where
  "ge a b = (lt b a \<or> strict_eq a b)"

text \<open>
  \<^verbatim>\<open>Math.ceil\<close>, \<^verbatim>\<open>Math.floor\<close> and \<^verbatim>\<open>Math.round\<close> (to the nearest integer, a
  tie going up) are exact: the integer they return is a double whenever the argument is.
\<close>

fun Math_ceil :: "number \<Rightarrow> number" where
  "Math_ceil (Finite a) = Finite (of_int \<lceil>a\<rceil>)"
| "Math_ceil a = a"

fun Math_floor :: "number \<Rightarrow> number" where
  "Math_floor (Finite a) = Finite (of_int \<lfloor>a\<rfloor>)"
| "Math_floor a = a"

fun Math_round :: "number \<Rightarrow> number" where
  "Math_round (Finite a) = Finite (of_int \<lfloor>a + 1 / 2\<rfloor>)"
| "Math_round a = a"

text \<open>
  The remainder operator \<^verbatim>\<open>%\<close>: the dividend minus the divisor times the quotient
  truncated toward zero. The result is exact, and it is \<^verbatim>\<open>NaN\<close> when the dividend is
  not finite or the divisor is zero or \<^verbatim>\<open>NaN\<close>.
\<close>

definition js_trunc :: "real \<Rightarrow> int" where
  "js_trunc q = (if 0 \<le> q then \<lfloor>q\<rfloor> else \<lceil>q\<rceil>)"

fun js_rem :: "number \<Rightarrow> number \<Rightarrow> number" where
  "js_rem (Finite a) (Finite b) =
     (if b = 0 then NaN else Finite (a - b * of_int (js_trunc (a / b))))"
| "js_rem (Finite a) Infinity = Finite a"
| "js_rem (Finite a) NegInfinity = Finite a"
| "js_rem _ _ = NaN"

text \<open>
  \<^verbatim>\<open>Math.max(a, b, ...)\<close> and \<^verbatim>\<open>Math.min(a, b, ...)\<close>: \<^verbatim>\<open>NaN\<close> as soon as one
  argument is \<^verbatim>\<open>NaN\<close>, and \<^verbatim>\<open>-Infinity\<close> and \<^verbatim>\<open>Infinity\<close> with no argument.
\<close>

definition max2 :: "number \<Rightarrow> number \<Rightarrow> number" where
  "max2 a b = (if a = NaN \<or> b = NaN then NaN else if lt a b then b else a)"

definition min2 :: "number \<Rightarrow> number \<Rightarrow> number" where
  "min2 a b = (if a = NaN \<or> b = NaN then NaN else if lt b a then b else a)"

definition Math_max :: "number list \<Rightarrow> number" where
  "Math_max xs = foldl max2 NegInfinity xs"

definition Math_min :: "number list \<Rightarrow> number" where
  "Math_min xs = foldl min2 Infinity xs"

text \<open>\<^verbatim>\<open>Array.prototype.reduce\<close> with an initial value folds from the left.\<close>

definition reduce :: "('b \<Rightarrow> 'a \<Rightarrow> 'b) \<Rightarrow> 'b \<Rightarrow> 'a list \<Rightarrow> 'b" where
  "reduce f init xs = foldl f init xs"

text \<open>The \<^verbatim>\<open>length\<close> of an array, as the number the source divides by.\<close>

definition length_number :: "'a list \<Rightarrow> number" where
  "length_number xs = fl (of_nat (length xs))"

section \<open>Numbers as strings\<close>

text \<open>
  A string is the list of its code units. Every string built by the functions below has
  code units under 256 only, so \<open>char\<close> holds them; the multiplication sign U+00D7 is
  the single code unit \<open>0xD7\<close>. \<open>digit\<close> is applied to numbers from 0 to 9 only.
\<close>

definition digit :: "int \<Rightarrow> char" where
  "digit n = ''0123456789'' ! nat n"

function show_digits :: "int \<Rightarrow> string" where
  "show_digits n =
     (if n < 10 then [digit n] else show_digits (n div 10) @ [digit (n mod 10)])"
  by pat_completeness auto
termination
  by (relation "measure nat") auto

declare show_digits.simps [simp del]

text \<open>
  A template literal turns a number into a string as \<^verbatim>\<open>Number.prototype.toString\<close>
  does. For a positive \<open>x\<close> the language standard takes the exponent \<open>n\<close> with
  \<open>10^(n-1) \<le> x < 10^n\<close> and the shortest digit string \<open>s\<close>, of \<open>k\<close> digits, such that
  \<open>s * 10^(n-k)\<close> denotes \<open>x\<close>, the nearest to \<open>x\<close> if there are several; seventeen digits
  always suffice. The digits are laid out plainly when \<open>-6 < n \<le> 21\<close> and with an
  exponent otherwise. An integer under \<open>2^53\<close> is printed with all its digits, which
  is what this procedure yields for it.
\<close>

function decimal_exponent :: "real \<Rightarrow> int" where
  "decimal_exponent x =
     (if x \<le> 0 then 0
      else if x < 1 then decimal_exponent (10 * x) - 1
      else if 10 \<le> x then decimal_exponent (x / 10) + 1
      else 1)"
  by pat_completeness auto
termination
proof (relation "measure (\<lambda>x. nat \<lfloor>x\<rfloor> + 10 * nat \<lceil>1 / x\<rceil>)")
  show "wf (measure (\<lambda>x. nat \<lfloor>x\<rfloor> + 10 * nat \<lceil>1 / x\<rceil>))" by simp
next
  fix x :: real
  assume a: "\<not> x \<le> 0" "x < 1"
  then have y: "1 < 1 / x" by simp
  then have c2: "2 \<le> \<lceil>1 / x\<rceil>" by linarith
  have "1 / (10 * x) = (1 / x) / 10" by simp
  also have "\<dots> \<le> of_int \<lceil>1 / x\<rceil> / 10" by (simp add: divide_right_mono)
  also have "\<dots> \<le> of_int (\<lceil>1 / x\<rceil> - 1)" using c2 by linarith
  finally have "\<lceil>1 / (10 * x)\<rceil> \<le> \<lceil>1 / x\<rceil> - 1" by (simp only: ceiling_le_iff)
  with c2 have c: "nat \<lceil>1 / (10 * x)\<rceil> + 1 \<le> nat \<lceil>1 / x\<rceil>" by linarith
  have "\<lfloor>10 * x\<rfloor> \<le> 9" using a by linarith
  then have f: "nat \<lfloor>10 * x\<rfloor> \<le> 9" by linarith
  have "\<lfloor>x\<rfloor> = 0" using a by linarith
  with c f show "(10 * x, x) \<in> measure (\<lambda>x. nat \<lfloor>x\<rfloor> + 10 * nat \<lceil>1 / x\<rceil>)"
    by simp
next
  fix x :: real
  assume a: "\<not> x \<le> 0" "\<not> x < 1" "10 \<le> x"
  then have "x / 10 \<le> x - 1" by simp
  then have "\<lfloor>x / 10\<rfloor> \<le> \<lfloor>x - 1\<rfloor>" by (rule floor_mono)
  then have f: "\<lfloor>x / 10\<rfloor> < \<lfloor>x\<rfloor>" by simp
  have "0 < 1 / x" "1 / x \<le> 1" using a by simp_all
  then have c1: "\<lceil>1 / x\<rceil> = 1" by linarith
  have "0 < 1 / (x / 10)" "1 / (x / 10) \<le> 1" using a by simp_all
  then have c2: "\<lceil>1 / (x / 10)\<rceil> = 1" by linarith
  have "0 < \<lfloor>x\<rfloor>" using a by linarith
  with f c1 c2 show "(x / 10, x) \<in> measure (\<lambda>x. nat \<lfloor>x\<rfloor> + 10 * nat \<lceil>1 / x\<rceil>)"
    by simp
qed

declare decimal_exponent.simps [simp del]

definition digits_candidate :: "real \<Rightarrow> int \<Rightarrow> nat \<Rightarrow> int option" where
  "digits_candidate x n k =
     (let scale = 10 powi (n - int k);
          lo = \<lfloor>x / scale\<rfloor>;
          hi = lo + 1;
          ok_lo = (fl (of_int lo * scale) = Finite x);
          ok_hi = (fl (of_int hi * scale) = Finite x)
      in if ok_lo \<and> ok_hi
         then (if x - of_int lo * scale < of_int hi * scale - x then Some lo
               else if of_int hi * scale - x < x - of_int lo * scale then Some hi
               else if even lo then Some lo else Some hi)
         else if ok_lo then Some lo
         else if ok_hi then Some hi
         else None)"

fun shortest_digits :: "real \<Rightarrow> int \<Rightarrow> nat \<Rightarrow> nat \<Rightarrow> int \<times> nat" where
  "shortest_digits x n k 0 = (\<lfloor>x / 10 powi (n - int k)\<rfloor>, k)"
| "shortest_digits x n k (Suc tries) =
     (case digits_candidate x n k of
        Some s \<Rightarrow> (s, k)
      | None \<Rightarrow> shortest_digits x n (Suc k) tries)"

definition format_digits :: "string \<Rightarrow> int \<Rightarrow> string" where
  "format_digits ds n =
     (let k = int (length ds)
      in if k \<le> n \<and> n \<le> 21 then ds @ replicate (nat (n - k)) CHR ''0''
         else if 0 < n \<and> n \<le> 21 then take (nat n) ds @ ''.'' @ drop (nat n) ds
         else if - 6 < n \<and> n \<le> 0 then ''0.'' @ replicate (nat (- n)) CHR ''0'' @ ds
         else
           let e = n - 1;
               exponent = (if e < 0 then ''e-'' else ''e+'') @ show_digits \<bar>e\<bar>
           in if k = 1 then ds @ exponent
              else take 1 ds @ ''.'' @ drop 1 ds @ exponent)"

definition positive_toString :: "real \<Rightarrow> string" where
  "positive_toString x =
     (if of_int \<lfloor>x\<rfloor> = x \<and> x < 2 ^ 53 then show_digits \<lfloor>x\<rfloor>
      else
        let n = decimal_exponent x;
            (s, k) = shortest_digits x n 1 17
        in if s = 10 ^ k then format_digits ''1'' (n + 1)
           else format_digits (show_digits s) n)"

fun Number_toString :: "number \<Rightarrow> string" where
  "Number_toString NaN = ''NaN''"
| "Number_toString Infinity = ''Infinity''"
| "Number_toString NegInfinity = ''-Infinity''"
| "Number_toString (Finite x) =
     (if x = 0 then ''0''
      else if x < 0 then CHR ''-'' # positive_toString (- x)
      else positive_toString x)"

text \<open>The double quote that marks inches, code unit \<open>0x22\<close>.\<close>

definition inch_mark :: string where
  "inch_mark = [CHR 0x22]"

section \<open>Provider types (\<^verbatim>\<open>providers/types\<close>)\<close>

datatype ConfidenceCategory = Excellent | OK | NotGreat

text \<open>The values of a \<^verbatim>\<open>Record<string, unknown>\<close> are opaque.\<close>

typedecl unknown

record FrameMetadata =
  pxToInchUsed :: "number option"
  detectorConfidence :: number
  detectorMetadata :: "(string \<times> unknown) list option"

text \<open>
  The page component declares a \<^verbatim>\<open>PassResult\<close> of its own, with the first five
  fields; the provider's \<^verbatim>\<open>PassResult\<close> adds \<^verbatim>\<open>frameMetadata\<close>. The second
  record extends the first, so a function on the smaller interface accepts both, as
  structural typing has it.
\<close>

record PassResult_page =
  widthInInches :: number
  heightInInches :: number
  confidence :: number
  category :: ConfidenceCategory
  timestamp :: number

record PassResult = PassResult_page +
  frameMetadata :: FrameMetadata

section \<open>Formatting utilities (\<^verbatim>\<open>utils/format\<close>)\<close>

definition roundUpToSixteenth :: "number \<Rightarrow> number" where
  "roundUpToSixteenth inches = fdiv (Math_ceil (fmul inches (lit 16))) (lit 16)"

record Fraction =
  numerator :: number
  denominator :: number

text \<open>
  The Euclidean algorithm of the source. The recursion ends when the second argument is
  zero, which a \<^verbatim>\<open>NaN\<close> argument never lets happen; the result \<open>None\<close> stands for a
  call that does not return a number (the engine ends it by an exception once its stack
  is used up).
\<close>

partial_function (option) findGCD :: "number \<Rightarrow> number \<Rightarrow> number option" where
  "findGCD a b = (if strict_eq b (lit 0) then Some a else findGCD b (js_rem a b))"

declare findGCD.simps [code]

definition simplifyFraction :: "number \<Rightarrow> number \<Rightarrow> Fraction option" where
  "simplifyFraction numerator denominator =
     map_option
       (\<lambda>gcd. \<lparr>numerator = fdiv numerator gcd, denominator = fdiv denominator gcd\<rparr>)
       (findGCD numerator denominator)"
  for numerator denominator

definition formatInchesFraction :: "number \<Rightarrow> string option" where
  "formatInchesFraction inches =
     (let rounded = roundUpToSixteenth inches;
          whole = Math_floor rounded;
          remainder = fsub rounded whole
      in if strict_eq remainder (lit 0) then Some (Number_toString whole @ inch_mark)
         else
           let sixteenths = Math_round (fmul remainder (lit 16))
           in case simplifyFraction sixteenths (lit 16) of
                None \<Rightarrow> None
              | Some f \<Rightarrow>
                  if strict_eq whole (lit 0)
                  then Some (Number_toString (numerator f) @ ''/''
                             @ Number_toString (denominator f) @ inch_mark)
                  else Some (Number_toString whole @ '' '' @ Number_toString (numerator f)
                             @ ''/'' @ Number_toString (denominator f) @ inch_mark))"


section \<open>Aggregation utilities (\<^verbatim>\<open>utils/aggregate\<close>)\<close>

text \<open>
  The source calls \<^verbatim>\<open>Math.max(...widths)\<close>: the spread passes every element of the
  array as an argument of the call, and an engine accepts a bounded number of arguments
  only; beyond the bound the call throws a \<^verbatim>\<open>RangeError\<close>. The bound depends on the
  engine and its stack, so it is a parameter, \<open>argLimit\<close>, of the functions that spread.
\<close>

datatype error = RangeError

definition spread :: "nat \<Rightarrow> (number list \<Rightarrow> number) \<Rightarrow> number list \<Rightarrow> error + number" where
  "spread argLimit f args = (if argLimit < length args then Inl RangeError else Inr (f args))"

record AggregatedResult =
  widthInches :: number
  heightInches :: number
  averageConfidence :: number
  category :: ConfidenceCategory
  passCount :: nat
  passes :: "PassResult list"

record Recommendation =
  recommend :: bool
  reason :: string

definition aggregateResults :: "nat \<Rightarrow> PassResult list \<Rightarrow> error + AggregatedResult" where
  "aggregateResults argLimit passes =
     (if length passes = 0
      then Inr \<lparr>widthInches = lit 0, heightInches = lit 0, averageConfidence = lit 0,
                 category = NotGreat, passCount = 0, passes = []\<rparr>
      else
        case spread argLimit Math_max (map widthInInches passes) of
          Inl e \<Rightarrow> Inl e
        | Inr maxWidth \<Rightarrow>
            (case spread argLimit Math_max (map heightInInches passes) of
               Inl e \<Rightarrow> Inl e
             | Inr maxHeight \<Rightarrow>
                 let finalWidth = roundUpToSixteenth maxWidth;
                     finalHeight = roundUpToSixteenth maxHeight;
                     avgConfidence =
                       fdiv (reduce (\<lambda>sum p. fadd sum (PassResult_page.confidence p)) (lit 0) passes)
                            (length_number passes);
                     category =
                       (if ge avgConfidence (lit 0.85) then Excellent
                        else if ge avgConfidence (lit 0.65) then OK
                        else NotGreat)
                 in Inr \<lparr>widthInches = finalWidth, heightInches = finalHeight,
                          averageConfidence = avgConfidence, category = category,
                          passCount = length passes, passes = passes\<rparr>))"
  for passes

definition shouldRecommendAdditionalPass :: "nat \<Rightarrow> PassResult list \<Rightarrow> error + Recommendation" where
  "shouldRecommendAdditionalPass argLimit passes =
     (if length passes = 0 then Inr \<lparr>recommend = False, reason = ''No passes yet''\<rparr>
      else if length passes \<ge> 3
      then Inr \<lparr>recommend = False, reason = ''Maximum passes reached''\<rparr>
      else
        let avgConfidence =
              fdiv (reduce (\<lambda>sum p. fadd sum (PassResult_page.confidence p)) (lit 0) passes)
                   (length_number passes)
        in if lt avgConfidence (lit 0.65)
           then Inr \<lparr>recommend = True,
                      reason = ''Low confidence - an additional pass may improve accuracy''\<rparr>
           else if length passes \<ge> 2
           then
             let widths = map widthInInches passes;
                 heights = map heightInInches passes
             in case spread argLimit Math_max widths of
                  Inl e \<Rightarrow> Inl e
                | Inr maxW \<Rightarrow>
                (case spread argLimit Math_min widths of
                  Inl e \<Rightarrow> Inl e
                | Inr minW \<Rightarrow>
                (case spread argLimit Math_max heights of
                  Inl e \<Rightarrow> Inl e
                | Inr maxH \<Rightarrow>
                (case spread argLimit Math_min heights of
                  Inl e \<Rightarrow> Inl e
                | Inr minH \<Rightarrow>
                    let widthVariance = fsub maxW minW;
                        heightVariance = fsub maxH minH
                    in if gt widthVariance (lit 1) \<or> gt heightVariance (lit 1)
                       then Inr \<lparr>recommend = True,
                                  reason =
                                    ''Measurements vary between passes - an additional pass may help''\<rparr>
                       else Inr \<lparr>recommend = False, reason = ''Measurements look good''\<rparr>)))
           else Inr \<lparr>recommend = False, reason = ''Measurements look good''\<rparr>)"
  for passes

section \<open>The self-contained page component\<close>


text \<open>The object that the component's \<^verbatim>\<open>aggregate\<close> returns; \<open>None\<close> is \<^verbatim>\<open>null\<close>.\<close>

record PageAggregate =
  width :: number
  height :: number
  confidence :: number
  category :: ConfidenceCategory
  passCount :: nat


text \<open>
  A session starts with no pass and adds one pass per capture, at the end:
  \<^verbatim>\<open>setPasses(prev => [...prev, result])\<close>.
\<close>

definition appendPass :: "PassResult list \<Rightarrow> PassResult \<Rightarrow> PassResult list" where
  "appendPass prev result = prev @ [result]"

section \<open>The functions as programs on the store\<close>

text \<open>
  To state what a call does to its argument, the store that holds the passed-in array and
  the pass records in it is made explicit: a program is a state transformer on the
  array's contents. The source reads the array through \<^verbatim>\<open>length\<close>, \<^verbatim>\<open>map\<close> and
  \<^verbatim>\<open>reduce\<close>, which build new values and leave the receiver as it is, and it never
  assigns to the array or to a field of a record; its callbacks only read a field. The
  two programs below follow the source statement by statement; a \<^verbatim>\<open>RangeError\<close>
  thrown by a spread ends the program with the store as it stands.
\<close>

definition array_length :: "('a list, nat) state" where
  "array_length = State (\<lambda>arr. (length arr, arr))"

definition array_map :: "('a \<Rightarrow> 'b) \<Rightarrow> ('a list, 'b list) state" where
  "array_map f = State (\<lambda>arr. (map f arr, arr))"

definition array_reduce :: "('b \<Rightarrow> 'a \<Rightarrow> 'b) \<Rightarrow> 'b \<Rightarrow> ('a list, 'b) state" where
  "array_reduce f init = State (\<lambda>arr. (foldl f init arr, arr))"

definition aggregateResults_on_store :: "nat \<Rightarrow> (PassResult list, error + AggregatedResult) state" where
  "aggregateResults_on_store argLimit =
     do {
       n \<leftarrow> array_length;
       if n = 0
       then State_Monad.return
              (Inr \<lparr>widthInches = lit 0, heightInches = lit 0, averageConfidence = lit 0,
                     category = NotGreat, passCount = 0, passes = []\<rparr>)
       else do {
         widths \<leftarrow> array_map widthInInches;
         (case spread argLimit Math_max widths of
            Inl e \<Rightarrow> State_Monad.return (Inl e)
          | Inr maxWidth \<Rightarrow> do {
              heights \<leftarrow> array_map heightInInches;
              (case spread argLimit Math_max heights of
                 Inl e \<Rightarrow> State_Monad.return (Inl e)
               | Inr maxHeight \<Rightarrow> do {
                   let finalWidth = roundUpToSixteenth maxWidth;
                   let finalHeight = roundUpToSixteenth maxHeight;
                   total \<leftarrow> array_reduce (\<lambda>sum p. fadd sum (PassResult_page.confidence p)) (lit 0);
                   n1 \<leftarrow> array_length;
                   let avgConfidence = fdiv total (fl (of_nat n1));
                   let category =
                         (if ge avgConfidence (lit 0.85) then Excellent
                          else if ge avgConfidence (lit 0.65) then OK
                          else NotGreat);
                   n2 \<leftarrow> array_length;
                   passes \<leftarrow> State_Monad.get;
                   State_Monad.return
                     (Inr \<lparr>widthInches = finalWidth, heightInches = finalHeight,
                            averageConfidence = avgConfidence, category = category,
                            passCount = n2, passes = passes\<rparr>)
                 })
            })
       }
     }"

definition shouldRecommendAdditionalPass_on_store ::
  "nat \<Rightarrow> (PassResult list, error + Recommendation) state" where
  "shouldRecommendAdditionalPass_on_store argLimit =
     do {
       n \<leftarrow> array_length;
       if n = 0
       then State_Monad.return (Inr \<lparr>recommend = False, reason = ''No passes yet''\<rparr>)
       else do {
         n1 \<leftarrow> array_length;
         if n1 \<ge> 3
         then State_Monad.return (Inr \<lparr>recommend = False, reason = ''Maximum passes reached''\<rparr>)
         else do {
           total \<leftarrow> array_reduce (\<lambda>sum p. fadd sum (PassResult_page.confidence p)) (lit 0);
           n2 \<leftarrow> array_length;
           let avgConfidence = fdiv total (fl (of_nat n2));
           if lt avgConfidence (lit 0.65)
           then State_Monad.return
                  (Inr \<lparr>recommend = True,
                         reason = ''Low confidence - an additional pass may improve accuracy''\<rparr>)
           else do {
             n3 \<leftarrow> array_length;
             if n3 \<ge> 2
             then do {
               widths \<leftarrow> array_map widthInInches;
               heights \<leftarrow> array_map heightInInches;
               State_Monad.return
                 (case spread argLimit Math_max widths of
                    Inl e \<Rightarrow> Inl e
                  | Inr maxW \<Rightarrow>
                  (case spread argLimit Math_min widths of
                    Inl e \<Rightarrow> Inl e
                  | Inr minW \<Rightarrow>
                  (case spread argLimit Math_max heights of
                    Inl e \<Rightarrow> Inl e
                  | Inr maxH \<Rightarrow>
                  (case spread argLimit Math_min heights of
                    Inl e \<Rightarrow> Inl e
                  | Inr minH \<Rightarrow>
                      let widthVariance = fsub maxW minW;
                          heightVariance = fsub maxH minH
                      in if gt widthVariance (lit 1) \<or> gt heightVariance (lit 1)
                         then Inr \<lparr>recommend = True,
                                    reason =
                                      ''Measurements vary between passes - an additional pass may help''\<rparr>
                         else Inr \<lparr>recommend = False, reason = ''Measurements look good''\<rparr>))))
             }
             else State_Monad.return
                    (Inr \<lparr>recommend = False, reason = ''Measurements look good''\<rparr>)
           }
         }
       }
     }"

section \<open>The test helper (\<^verbatim>\<open>tests/aggregate.test\<close>)\<close>

text \<open>The helper reads the clock for the time stamp; here the time is a parameter.\<close>

definition createPassResult :: "number \<Rightarrow> number \<Rightarrow> number \<Rightarrow> number \<Rightarrow> PassResult" where
  "createPassResult width height confidence now =
     \<lparr>widthInInches = width, heightInInches = height, confidence = confidence,
      category = (if ge confidence (lit 0.85) then Excellent
                  else if ge confidence (lit 0.65) then OK else NotGreat),
      timestamp = now,
      frameMetadata = \<lparr>pxToInchUsed = None, detectorConfidence = confidence,
                        detectorMetadata = None\<rparr>\<rparr>"
  for width height confidence

section \<open>Rounding to a double\<close>

lemma ilog2_bounds:
  "0 < x \<Longrightarrow> 2 powi (ilog2 x) \<le> x \<and> x < 2 powi (ilog2 x + 1)"
proof (induction x rule: ilog2.induct)
  case (1 x)
  consider "x < 1" | "2 \<le> x" | "1 \<le> x" "x < 2" by linarith
  then show ?case
  proof cases
    case 1
    with "1.prems" have eq: "ilog2 x = ilog2 (2 * x) - 1"
      by (subst ilog2.simps) simp
    from 1 "1.prems" "1.IH"(1) have ih: "2 powi (ilog2 (2 * x)) \<le> 2 * x"
      "2 * x < 2 powi (ilog2 (2 * x) + 1)" by simp_all
    have p: "2 powi (ilog2 (2 * x)) = (2::real) powi (ilog2 (2 * x) - 1) * 2"
      by (simp add: power_int_minus_mult)
    have q: "(2::real) powi (ilog2 (2 * x) + 1) = 2 powi (ilog2 (2 * x)) * 2"
      by (simp add: power_int_add)
    from ih p q show ?thesis unfolding eq by simp
  next
    case 2
    with "1.prems" have eq: "ilog2 x = ilog2 (x / 2) + 1"
      by (subst ilog2.simps) simp
    from 2 "1.prems" "1.IH"(2) have ih: "2 powi (ilog2 (x / 2)) \<le> x / 2"
      "x / 2 < 2 powi (ilog2 (x / 2) + 1)" by simp_all
    have q: "(2::real) powi (ilog2 (x / 2) + 1 + 1) = 2 powi (ilog2 (x / 2) + 1) * 2"
      by (simp add: power_int_add)
    have p: "(2::real) powi (ilog2 (x / 2) + 1) = 2 powi (ilog2 (x / 2)) * 2"
      by (simp add: power_int_add)
    from ih p q show ?thesis unfolding eq by simp
  next
    case 3
    then have "ilog2 x = 0" by (subst ilog2.simps) simp
    with 3 show ?thesis by simp
  qed
qed

lemma ilog2_unique:
  assumes "0 < x" "2 powi k \<le> x" "x < 2 powi (k + 1)"
  shows "ilog2 x = k"
proof -
  from ilog2_bounds [OF assms(1)] have b: "2 powi (ilog2 x) \<le> x" "x < 2 powi (ilog2 x + 1)"
    by simp_all
  have "(2::real) powi k < 2 powi (ilog2 x + 1)" using assms(2) b(2) by linarith
  then have "k < ilog2 x + 1"
    by (metis not_le power_int_increasing one_le_numeral linorder_not_less)
  moreover have "(2::real) powi (ilog2 x) < 2 powi (k + 1)" using assms(3) b(1) by linarith
  then have "ilog2 x < k + 1"
    by (metis not_le power_int_increasing one_le_numeral linorder_not_less)
  ultimately show ?thesis by simp
qed

lemma round_half_even_of_int: "round_half_even (of_int m) = m"
  by (simp add: round_half_even_def)

lemma round_half_even_range:
  "\<lfloor>y\<rfloor> \<le> round_half_even y \<and> round_half_even y \<le> \<lceil>y\<rceil>"
proof -
  have "\<lceil>y\<rceil> = \<lfloor>y\<rfloor> + 1" if "0 < y - of_int \<lfloor>y\<rfloor>"
    using that by linarith
  then show ?thesis
    unfolding round_half_even_def Let_def
    by (auto simp: ceiling_altdef) 
qed

lemma round_half_even_abs_le:
  assumes "\<bar>y\<bar> \<le> of_int B"
  shows "\<bar>round_half_even y\<bar> \<le> B"
proof -
  from assms have "- of_int B \<le> y" "y \<le> of_int B" by linarith+
  then have "- B \<le> \<lfloor>y\<rfloor>" "\<lceil>y\<rceil> \<le> B"
    by (simp_all add: le_floor_iff ceiling_le_iff)
  with round_half_even_range [of y] show ?thesis by linarith
qed

lemma round_half_even_abs_ge:
  assumes "of_int B \<le> \<bar>y\<bar>"
  shows "B \<le> \<bar>round_half_even y\<bar>"
proof (cases "0 \<le> y")
  case True
  with assms have "of_int B \<le> y" by simp
  then have "B \<le> \<lfloor>y\<rfloor>" by (simp add: le_floor_iff)
  with round_half_even_range [of y] show ?thesis by linarith
next
  case False
  with assms have "y \<le> of_int (- B)" by simp
  then have "\<lceil>y\<rceil> \<le> - B" by (simp only: ceiling_le_iff)
  with round_half_even_range [of y] show ?thesis by linarith
qed

lemma ulp_exponent_ge: "- 1074 \<le> ulp_exponent x"
  by (simp add: ulp_exponent_def)

lemma abs_less_ulp:
  assumes "x \<noteq> 0"
  shows "\<bar>x\<bar> / 2 powi ulp_exponent x < 2 ^ 53"
proof -
  from assms have pos: "0 < \<bar>x\<bar>" by simp
  have "\<bar>x\<bar> < 2 powi (ilog2 \<bar>x\<bar> + 1)" using ilog2_bounds [OF pos] by simp
  also have "\<dots> \<le> 2 powi (ulp_exponent x + 53)"
    by (rule power_int_increasing) (simp_all add: ulp_exponent_def)
  also have "\<dots> = 2 powi ulp_exponent x * 2 ^ 53"
    by (simp add: power_int_add)
  finally show ?thesis by (simp add: pos_divide_less_eq)
qed

text \<open>
  An integer of at most 53 bits times a power of two, from \<open>2^(-1074)\<close> on and under
  \<open>2^1024\<close>, is a double.
\<close>

lemma fl_exact:
  assumes x: "x = of_int m * 2 powi e" and m: "\<bar>m\<bar> < 2 ^ 53" and e: "- 1074 \<le> e"
    and range: "\<bar>x\<bar> < 2 ^ 1024"
  shows "fl x = Finite x"
proof (cases "x = 0")
  case True
  then show ?thesis by (simp add: fl_def)
next
  case False
  define E where "E = ulp_exponent x"
  from False have pos: "0 < \<bar>x\<bar>" by simp
  have "2 powi (ilog2 \<bar>x\<bar>) \<le> \<bar>x\<bar>" using ilog2_bounds [OF pos] by simp
  also have "\<bar>x\<bar> = of_int \<bar>m\<bar> * 2 powi e" by (simp add: x abs_mult)
  also have "\<dots> < 2 ^ 53 * 2 powi e"
  proof -
    have "(of_int \<bar>m\<bar> :: real) < of_int (2 ^ 53)" using m by (simp only: of_int_less_iff)
    then show ?thesis by simp
  qed
  also have "\<dots> = 2 powi (53 + e)" by (simp add: power_int_add)
  finally have "ilog2 \<bar>x\<bar> < 53 + e"
    by (metis not_le power_int_increasing one_le_numeral linorder_not_less)
  with e have le: "E \<le> e" by (simp add: E_def ulp_exponent_def)
  then have "(2::real) powi e = 2 powi E * 2 ^ nat (e - E)"
    by (simp add: power_int_add [symmetric] power_int_nonneg_exp [symmetric])
  then have q: "x / 2 powi E = of_int (m * 2 ^ nat (e - E))"
    by (simp add: x)
  have nz: "(2::real) powi E \<noteq> 0" by simp
  have "of_int (m * 2 ^ nat (e - E)) * 2 powi E = x"
    using q nz by (metis nonzero_divide_eq_eq)
  then have "of_int (round_half_even (x / 2 powi E)) * 2 powi E = x"
    unfolding q round_half_even_of_int .
  with False range show ?thesis
    by (simp add: fl_def Let_def E_def [symmetric])
qed

lemma fl_exact_le:
  assumes x: "x = of_int m * 2 powi e" and m: "\<bar>m\<bar> \<le> 2 ^ 53" and e: "- 1074 \<le> e"
    and range: "\<bar>x\<bar> < 2 ^ 1024"
  shows "fl x = Finite x"
proof (cases "\<bar>m\<bar> < 2 ^ 53")
  case True
  from x True e range show ?thesis by (rule fl_exact)
next
  case False
  with m have "\<bar>m\<bar> = 2 ^ 53" by simp
  then have "m = 2 ^ 53 \<or> m = - (2 ^ 53)" by linarith
  then have "m = 2 * (m div 2)" "\<bar>m div 2\<bar> < 2 ^ 53" by auto
  then have "of_int m = (of_int (m div 2) :: real) * 2"
    by (metis mult.commute of_int_mult of_int_numeral)
  then have "x = of_int (m div 2) * 2 powi (e + 1)"
    by (simp add: x power_int_add)
  moreover have "- 1074 \<le> e + 1" using e by simp
  ultimately show ?thesis using \<open>\<bar>m div 2\<bar> < 2 ^ 53\<close> range
    by (metis fl_exact)
qed

lemma is_double_0: "is_double 0"
  by (simp add: is_double_def fl_def)

lemma is_double_structure:
  assumes "is_double x"
  shows "\<exists>m. x = of_int m * 2 powi ulp_exponent x \<and> \<bar>m\<bar> < 2 ^ 53"
proof (cases "x = 0")
  case True
  then show ?thesis by (intro exI [of _ 0]) simp
next
  case False
  define E where "E = ulp_exponent x"
  define m where "m = round_half_even (x / 2 powi E)"
  from assms False have v: "of_int m * 2 powi E = x"
    unfolding is_double_def fl_def Let_def m_def E_def
    by (auto split: if_splits)
  then have "x / 2 powi E = of_int m"
    by (metis nonzero_mult_div_cancel_right power_int_eq_0_iff zero_neq_numeral)
  then have "\<bar>of_int m :: real\<bar> = \<bar>x / 2 powi E\<bar>" by (simp only:)
  also have "\<dots> = \<bar>x\<bar> / 2 powi E" by simp
  also have "\<dots> < 2 ^ 53" unfolding E_def using False by (rule abs_less_ulp)
  finally have "(of_int \<bar>m\<bar> :: real) < of_int (2 ^ 53)" by simp
  then have "\<bar>m\<bar> < 2 ^ 53" by (simp only: of_int_less_iff)
  with v show ?thesis unfolding E_def by (intro exI [of _ m]) simp
qed

lemma is_double_range: "is_double x \<Longrightarrow> \<bar>x\<bar> < 2 ^ 1024"
  unfolding is_double_def fl_def Let_def
  by (auto split: if_splits simp: not_le)

lemma is_doubleI:
  assumes "x = of_int m * 2 powi e" "\<bar>m\<bar> \<le> 2 ^ 53" "- 1074 \<le> e" "\<bar>x\<bar> < 2 ^ 1024"
  shows "is_double x"
  unfolding is_double_def using assms by (rule fl_exact_le)

text \<open>Rounding returns a double, or an infinity from \<open>2^1024\<close> on.\<close>

lemma fl_is_double:
  assumes "fl x = Finite v"
  shows "is_double v"
proof (cases "x = 0")
  case True
  with assms show ?thesis by (auto simp: fl_def is_double_0)
next
  case False
  define E where "E = ulp_exponent x"
  define m where "m = round_half_even (x / 2 powi E)"
  from assms False have v: "v = of_int m * 2 powi E" and r: "\<bar>v\<bar> < 2 ^ 1024"
    unfolding fl_def Let_def m_def E_def
    by (auto split: if_splits simp: not_le)
  have "\<bar>x / 2 powi E\<bar> = \<bar>x\<bar> / 2 powi E" by simp
  also have "\<dots> < 2 ^ 53" unfolding E_def using False by (rule abs_less_ulp)
  finally have "\<bar>x / 2 powi E\<bar> \<le> of_int (2 ^ 53)" by simp
  then have "\<bar>m\<bar> \<le> 2 ^ 53" unfolding m_def by (rule round_half_even_abs_le)
  with v show ?thesis using ulp_exponent_ge [of x] r unfolding E_def by (rule is_doubleI)
qed

lemma fl_overflow:
  assumes "2 ^ 1024 \<le> \<bar>x\<bar>"
  shows "fl x = (if 0 < x then Infinity else NegInfinity)"
proof -
  from assms have nz: "x \<noteq> 0" and pos: "0 < \<bar>x\<bar>" by auto
  define k where "k = ilog2 \<bar>x\<bar>"
  define E where "E = ulp_exponent x"
  have b: "2 powi k \<le> \<bar>x\<bar>" "\<bar>x\<bar> < 2 powi (k + 1)"
    using ilog2_bounds [OF pos] by (simp_all add: k_def)
  have "(2::real) powi 1024 < 2 powi (k + 1)" using assms b(2) by simp
  then have "1024 < k + 1"
    by (metis not_le power_int_increasing one_le_numeral linorder_not_less)
  then have k: "1024 \<le> k" by simp
  then have E: "E = k - 52" by (simp add: E_def ulp_exponent_def k_def)
  have "(2::real) powi k = 2 powi 52 * 2 powi (k - 52)"
    by (subst power_int_add [symmetric]) simp_all
  then have split: "(2::real) powi k = 2 ^ 52 * 2 powi E"
    unfolding E by simp
  then have "of_int (2 ^ 52) \<le> \<bar>x / 2 powi E\<bar>"
    using b(1) by (simp add: pos_le_divide_eq)
  then have "2 ^ 52 \<le> \<bar>round_half_even (x / 2 powi E)\<bar>"
    by (rule round_half_even_abs_ge)
  then have "(of_int (2 ^ 52) :: real) \<le> of_int \<bar>round_half_even (x / 2 powi E)\<bar>"
    by (simp only: of_int_le_iff)
  then have "2 ^ 52 * 2 powi E
               \<le> \<bar>real_of_int (round_half_even (x / 2 powi E)) * 2 powi E\<bar>"
    by (simp add: abs_mult)
  moreover have "(2::real) ^ 1024 \<le> 2 powi k"
    using power_int_increasing [of 1024 k "2::real"] k by simp
  ultimately have "2 ^ 1024 \<le> \<bar>real_of_int (round_half_even (x / 2 powi E)) * 2 powi E\<bar>"
    using split by linarith
  with nz show ?thesis by (simp add: fl_def Let_def E_def [symmetric])
qed

lemma is_double_times_16:
  assumes "is_double x" "\<bar>x\<bar> * 16 < 2 ^ 1024"
  shows "is_double (x * 16)"
proof -
  from is_double_structure [OF assms(1)] obtain m
    where m: "x = of_int m * 2 powi ulp_exponent x" "\<bar>m\<bar> < 2 ^ 53" by blast
  have "(2::real) powi (ulp_exponent x + 4) = 2 powi ulp_exponent x * 16"
    by (simp add: power_int_add)
  with m(1) have a: "x * 16 = of_int m * 2 powi (ulp_exponent x + 4)" by simp
  have b: "\<bar>m\<bar> \<le> 2 ^ 53" using m(2) by simp
  have c: "- 1074 \<le> ulp_exponent x + 4" using ulp_exponent_ge [of x] by simp
  have d: "\<bar>x * 16\<bar> < 2 ^ 1024" using assms(2) by (simp add: abs_mult)
  show ?thesis by (rule is_doubleI [OF a b c d])
qed

lemma is_double_of_int:
  assumes "\<bar>n\<bar> \<le> 2 ^ 53"
  shows "is_double (of_int n)"
proof (rule is_doubleI [of _ n 0])
  show "real_of_int n = of_int n * 2 powi 0" by simp
  show "\<bar>n\<bar> \<le> 2 ^ 53" by fact
  show "- 1074 \<le> (0::int)" by simp
  have "\<bar>real_of_int n\<bar> = of_int \<bar>n\<bar>" by simp
  also have "\<dots> \<le> of_int (2 ^ 53)" using assms by (simp only: of_int_le_iff)
  also have "\<dots> < (2::real) ^ 1024" by simp
  finally show "\<bar>real_of_int n\<bar> < 2 ^ 1024" .
qed

lemma is_double_sixteenths:
  assumes "\<bar>n\<bar> \<le> 2 ^ 53"
  shows "is_double (of_int n / 16)"
proof (rule is_doubleI [of _ n "- 4"])
  show "real_of_int n / 16 = of_int n * 2 powi (- 4)" by simp
  show "\<bar>n\<bar> \<le> 2 ^ 53" by fact
  show "- 1074 \<le> (- 4::int)" by simp
  have "\<bar>real_of_int n\<bar> = of_int \<bar>n\<bar>" by simp
  also have "\<dots> \<le> of_int (2 ^ 53)" using assms by (simp only: of_int_le_iff)
  finally show "\<bar>real_of_int n / 16\<bar> < 2 ^ 1024" by simp
qed

lemma big_double_integral:
  assumes "is_double d" "2 ^ 53 \<le> \<bar>d\<bar>"
  shows "\<exists>m e. d = of_int m * 2 powi e \<and> \<bar>m\<bar> < 2 ^ 53 \<and> 1 \<le> e"
proof -
  from assms(2) have pos: "0 < \<bar>d\<bar>" by simp
  have "(2::real) powi 53 \<le> \<bar>d\<bar>" using assms(2) by simp
  also have "\<bar>d\<bar> < 2 powi (ilog2 \<bar>d\<bar> + 1)" using ilog2_bounds [OF pos] by simp
  finally have "53 < ilog2 \<bar>d\<bar> + 1"
    by (metis not_le power_int_increasing one_le_numeral linorder_not_less)
  then have "53 \<le> ilog2 \<bar>d\<bar>" by simp
  then have "1 \<le> ulp_exponent d" by (simp add: ulp_exponent_def)
  with is_double_structure [OF assms(1)] show ?thesis by blast
qed

lemma dyadic_integral:
  assumes "d = of_int m * 2 powi e" "0 \<le> e"
  shows "d = of_int (m * 2 ^ nat e)"
  using assms by (simp add: power_int_nonneg_exp)

lemma is_double_ceiling:
  assumes "is_double d"
  shows "is_double (of_int \<lceil>d\<rceil>)" and "is_double (of_int \<lceil>d\<rceil> / 16)"
proof -
  have "is_double (of_int \<lceil>d\<rceil>) \<and> is_double (of_int \<lceil>d\<rceil> / 16)"
  proof (cases "\<bar>d\<bar> < 2 ^ 53")
    case True
    then have "- (2 ^ 53) < d" "d < 2 ^ 53" by linarith+
    then have "- (2 ^ 53) \<le> \<lceil>d\<rceil>" "\<lceil>d\<rceil> \<le> 2 ^ 53"
      by (simp_all add: ceiling_le_iff le_ceiling_iff)
    then have "\<bar>\<lceil>d\<rceil>\<bar> \<le> 2 ^ 53" by linarith
    then show ?thesis by (simp add: is_double_of_int is_double_sixteenths)
  next
    case False
    then have "2 ^ 53 \<le> \<bar>d\<bar>" by simp
    from big_double_integral [OF assms this] obtain m e
      where me: "d = of_int m * 2 powi e" "\<bar>m\<bar> < 2 ^ 53" "1 \<le> e" by blast
    then have "d = of_int (m * 2 ^ nat e)" by (intro dyadic_integral) simp_all
    then have c: "of_int \<lceil>d\<rceil> = d" by simp
    have "(2::real) powi e = 2 powi (e - 4) * 16"
      by (simp add: power_int_diff)
    with me(1) have a: "d / 16 = of_int m * 2 powi (e - 4)" by simp
    have b: "\<bar>m\<bar> \<le> 2 ^ 53" using me(2) by simp
    have e4: "- 1074 \<le> e - 4" using me(3) by simp
    have r: "\<bar>d / 16\<bar> < 2 ^ 1024" using is_double_range [OF assms] by simp
    have "is_double (d / 16)" by (rule is_doubleI [OF a b e4 r])
    with assms show ?thesis by (simp add: c)
  qed
  then show "is_double (of_int \<lceil>d\<rceil>)" and "is_double (of_int \<lceil>d\<rceil> / 16)"
    by simp_all
qed

lemma fl_not_NaN: "fl x \<noteq> NaN"
  by (simp add: fl_def Let_def)

lemma lit_of_int:
  assumes "\<bar>n\<bar> \<le> 2 ^ 53"
  shows "lit (of_int n) = Finite (of_int n)"
  using is_double_of_int [OF assms] by (simp add: lit_def is_double_def)

lemma lit_16: "lit 16 = Finite 16"
  using lit_of_int [of 16] by simp

lemma lit_0: "lit 0 = Finite 0"
  by (simp add: lit_def fl_def)

lemma lit_1: "lit 1 = Finite 1"
  using lit_of_int [of 1] by simp

lemma lit_36: "lit 36 = Finite 36" using lit_of_int [of 36] by simp

lemma lit_48: "lit 48 = Finite 48" using lit_of_int [of 48] by simp

lemma fl_small_int:
  assumes "\<bar>n\<bar> \<le> 16"
  shows "fl (of_int n) = Finite (of_int n)"
proof -
  from assms have "\<bar>n\<bar> \<le> 2 ^ 53" by simp
  then show ?thesis using is_double_of_int [of n] by (simp add: is_double_def)
qed

lemma fl_small_sixteenth:
  assumes "\<bar>n\<bar> \<le> 16"
  shows "fl (of_int n / 16) = Finite (of_int n / 16)"
proof -
  from assms have "\<bar>n\<bar> \<le> 2 ^ 53" by simp
  then show ?thesis using is_double_sixteenths [of n] by (simp add: is_double_def)
qed

text \<open>
  The double nearest to \<open>x\<close>, once the binade of \<open>x\<close> and the rounded significand are
  known; and the doubles that the literals \<^verbatim>\<open>0.3\<close>, \<^verbatim>\<open>0.65\<close> and \<^verbatim>\<open>0.85\<close> denote.
\<close>

lemma fl_in_binade:
  assumes k: "2 powi k \<le> \<bar>x\<bar>" "\<bar>x\<bar> < 2 powi (k + 1)" and range: "- 1022 \<le> k" "k < 1023"
    and m: "round_half_even (x / 2 powi (k - 52)) = m"
  shows "fl x = Finite (of_int m * 2 powi (k - 52))"
proof -
  have "(0::real) < 2 powi k" by simp
  with k(1) have pos: "0 < \<bar>x\<bar>" by linarith
  then have nz: "x \<noteq> 0" by simp
  have "ilog2 \<bar>x\<bar> = k" using pos k by (rule ilog2_unique)
  with range have e: "ulp_exponent x = k - 52" by (simp add: ulp_exponent_def)
  have "\<bar>x / 2 powi (k - 52)\<bar> = \<bar>x\<bar> / 2 powi ulp_exponent x" by (simp add: e)
  also have "\<dots> < 2 ^ 53" using nz by (rule abs_less_ulp)
  finally have "\<bar>x / 2 powi (k - 52)\<bar> \<le> of_int (2 ^ 53)" by simp
  then have "\<bar>m\<bar> \<le> 2 ^ 53" unfolding m [symmetric] by (rule round_half_even_abs_le)
  then have "(of_int \<bar>m\<bar> :: real) \<le> of_int (2 ^ 53)" by (simp only: of_int_le_iff)
  then have "\<bar>real_of_int m * 2 powi (k - 52)\<bar> \<le> 2 ^ 53 * 2 powi (k - 52)"
    by (simp add: abs_mult)
  also have "(2::real) ^ 53 * 2 powi (k - 52) = 2 powi (k + 1)"
  proof -
    have "k + 1 = 53 + (k - 52)" by arith
    then have "(2::real) powi (k + 1) = 2 powi (53 + (k - 52))" by (simp only:)
    also have "\<dots> = 2 powi 53 * 2 powi (k - 52)"
      by (rule power_int_add) simp
    finally have "(2::real) powi (k + 1) = 2 powi 53 * 2 powi (k - 52)" .
    then show ?thesis by simp
  qed
  also have "\<dots> \<le> 2 powi 1023"
    by (rule power_int_increasing) (use range in simp_all)
  also have "\<dots> < (2::real) ^ 1024" by simp
  finally have "\<not> 2 ^ 1024 \<le> \<bar>real_of_int m * 2 powi (k - 52)\<bar>" by simp
  with nz show ?thesis by (simp add: fl_def Let_def e m)
qed

lemma fl_dyadic:
  assumes "\<bar>m\<bar> \<le> 2 ^ 53" "j \<le> 1074"
  shows "fl (of_int m / 2 ^ j) = Finite (of_int m / 2 ^ j)"
proof -
  have a: "real_of_int m / 2 ^ j = of_int m * 2 powi (- int j)"
    by (simp add: power_int_minus divide_inverse)
  have c: "- 1074 \<le> - int j" using assms(2) by simp
  have "(of_int \<bar>m\<bar> :: real) \<le> of_int (2 ^ 53)" using assms(1) by (simp only: of_int_le_iff)
  then have "\<bar>real_of_int m\<bar> \<le> 2 ^ 53" by simp
  moreover have "(1::real) \<le> 2 ^ j" by simp
  ultimately have "\<bar>real_of_int m\<bar> / 2 ^ j \<le> 2 ^ 53 / 1"
    by (intro frac_le) simp_all
  then have d: "\<bar>real_of_int m / 2 ^ j\<bar> < 2 ^ 1024" by simp
  show ?thesis using is_doubleI [OF a assms(1) c d] by (simp add: is_double_def)
qed

lemma lit_3_10: "lit (3 / 10) = Finite (5404319552844595 / 18014398509481984)"
  unfolding lit_def
  using fl_in_binade [of "- 2" "3 / 10" 5404319552844595]
  by (simp add: round_half_even_def)

lemma lit_13_20: "lit (13 / 20) = Finite (5854679515581645 / 9007199254740992)"
  unfolding lit_def
  using fl_in_binade [of "- 1" "13 / 20" 5854679515581645]
  by (simp add: round_half_even_def)

lemma lit_17_20: "lit (17 / 20) = Finite (7656119366529843 / 9007199254740992)"
  unfolding lit_def
  using fl_in_binade [of "- 1" "17 / 20" 7656119366529843]
  by (simp add: round_half_even_def)

section \<open>Rounding up to a sixteenth\<close>

lemma roundUpToSixteenth_special:
  "roundUpToSixteenth NaN = NaN"
  "roundUpToSixteenth Infinity = Infinity"
  "roundUpToSixteenth NegInfinity = NegInfinity"
  by (simp_all add: roundUpToSixteenth_def lit_16 signed_infinity_def)

lemma roundUpToSixteenth_finite:
  assumes "fl (r * 16) = Finite d"
  shows "roundUpToSixteenth (Finite r) = Finite (of_int \<lceil>d\<rceil> / 16)"
proof -
  from assms have "is_double d" by (rule fl_is_double)
  then have "fl (of_int \<lceil>d\<rceil> / 16) = Finite (of_int \<lceil>d\<rceil> / 16)"
    using is_double_ceiling(2) [of d] by (simp add: is_double_def)
  with assms show ?thesis
    by (simp add: roundUpToSixteenth_def lit_16)
qed

lemma roundUpToSixteenth_grid:
  assumes "is_double d"
  shows "roundUpToSixteenth (Finite (of_int \<lceil>d\<rceil> / 16)) = Finite (of_int \<lceil>d\<rceil> / 16)"
proof -
  have "fl (of_int \<lceil>d\<rceil> / 16 * 16) = Finite (of_int \<lceil>d\<rceil>)"
    using is_double_ceiling(1) [OF assms] by (simp add: is_double_def)
  from roundUpToSixteenth_finite [OF this] show ?thesis by simp
qed

lemma roundUpToSixteenth_in_range:
  assumes "is_double x" "\<bar>x\<bar> * 16 < 2 ^ 1024"
  shows "roundUpToSixteenth (Finite x) = Finite (of_int \<lceil>x * 16\<rceil> / 16)"
proof -
  have "fl (x * 16) = Finite (x * 16)"
    using is_double_times_16 [OF assms] by (simp add: is_double_def)
  then show ?thesis by (rule roundUpToSixteenth_finite)
qed

lemma roundUpToSixteenth_out_of_range:
  assumes "2 ^ 1024 \<le> \<bar>x\<bar> * 16"
  shows "roundUpToSixteenth (Finite x) = (if 0 < x then Infinity else NegInfinity)"
proof -
  from assms have "2 ^ 1024 \<le> \<bar>x * 16\<bar>" by (simp add: abs_mult)
  then have "fl (x * 16) = (if 0 < x * 16 then Infinity else NegInfinity)"
    by (rule fl_overflow)
  then show ?thesis
    by (simp add: roundUpToSixteenth_def lit_16 signed_infinity_def)
qed

lemma ceiling_sixteenth_least:
  assumes "x \<le> of_int k / 16"
  shows "real_of_int \<lceil>x * 16\<rceil> / 16 \<le> of_int k / 16"
proof -
  from assms have "x * 16 \<le> of_int k" by simp
  then have "\<lceil>x * 16\<rceil> \<le> k" by (simp add: ceiling_le_iff)
  then have "(of_int \<lceil>x * 16\<rceil> :: real) \<le> of_int k" by simp
  then show ?thesis by simp
qed

lemma roundUpToSixteenth_of_32nds:
  assumes "\<bar>n\<bar> \<le> 2 ^ 53"
  shows "roundUpToSixteenth (Finite (of_int n / 32)) = Finite (of_int \<lceil>real_of_int n / 2\<rceil> / 16)"
proof -
  have "fl (of_int n / 2 ^ 1) = Finite (of_int n / 2 ^ 1)"
    using assms by (intro fl_dyadic) simp_all
  then have "fl (of_int n / 32 * 16) = Finite (of_int n / 2)" by simp
  then show ?thesis by (rule roundUpToSixteenth_finite)
qed

lemma roundUpToSixteenth_36: "roundUpToSixteenth (Finite 36) = Finite 36"
  using roundUpToSixteenth_of_32nds [of 1152] by simp

lemma roundUpToSixteenth_48: "roundUpToSixteenth (Finite 48) = Finite 48"
  using roundUpToSixteenth_of_32nds [of 1536] by simp

lemma is_double_minus_3_32: "is_double (- (3 / 32))"
proof (rule is_doubleI [of _ "- 3" "- 5"])
  show "- (3 / 32) = real_of_int (- 3) * 2 powi (- 5)" by simp
qed simp_all

lemma is_double_2_1020: "is_double (2 ^ 1020)" "is_double (- (2 ^ 1020))"
proof -
  show "is_double (2 ^ 1020)"
  proof (rule is_doubleI [of _ 1 1020])
    show "(2::real) ^ 1020 = real_of_int 1 * 2 powi 1020" by simp
  qed simp_all
  show "is_double (- (2 ^ 1020))"
  proof (rule is_doubleI [of _ "- 1" 1020])
    show "- ((2::real) ^ 1020) = real_of_int (- 1) * 2 powi 1020" by simp
  qed simp_all
qed

text \<open>
  C3, as the source has it. Let \<open>x\<close> be a finite double. When \<open>16 * \<bar>x\<bar>\<close> is under
  \<open>2^1024\<close>, every step of \<open>roundUpToSixteenth\<close> is exact and the result is
  \<open>ceil (x * 16) / 16\<close>: it is at least \<open>x\<close>, no multiple of 1/16 that is at least \<open>x\<close>
  is smaller, it exceeds \<open>x\<close> by less than 1/16, and a multiple of 1/16 is returned
  unchanged; this covers zero and the negative numbers. From \<open>2^1020\<close> on, the product
  \<open>x * 16\<close> overflows and the result is the infinity of the sign of \<open>x\<close>.
\<close>

theorem roundUpToSixteenth_smallest_multiple:
  assumes "is_double x"
  shows "(\<bar>x\<bar> * 16 < 2 ^ 1024 \<longrightarrow>
            roundUpToSixteenth (Finite x) = Finite (of_int \<lceil>x * 16\<rceil> / 16)
          \<and> x \<le> of_int \<lceil>x * 16\<rceil> / 16
          \<and> (\<forall>k::int. x \<le> of_int k / 16 \<longrightarrow> of_int \<lceil>x * 16\<rceil> / 16 \<le> (of_int k / 16 :: real))
          \<and> of_int \<lceil>x * 16\<rceil> / 16 - x < 1 / 16
          \<and> (\<forall>k::int. x = of_int k / 16 \<longrightarrow> roundUpToSixteenth (Finite x) = Finite x))
       \<and> (2 ^ 1024 \<le> \<bar>x\<bar> * 16 \<longrightarrow>
            roundUpToSixteenth (Finite x) = (if 0 < x then Infinity else NegInfinity))"
proof (intro conjI impI allI)
  assume r: "\<bar>x\<bar> * 16 < 2 ^ 1024"
  show eq: "roundUpToSixteenth (Finite x) = Finite (of_int \<lceil>x * 16\<rceil> / 16)"
    using assms r by (rule roundUpToSixteenth_in_range)
  have "x * 16 \<le> of_int \<lceil>x * 16\<rceil>" by (rule le_of_int_ceiling)
  then show "x \<le> of_int \<lceil>x * 16\<rceil> / 16" by simp
  have "of_int \<lceil>x * 16\<rceil> - 1 < x * 16" using ceiling_correct [of "x * 16"] by simp
  then show "of_int \<lceil>x * 16\<rceil> / 16 - x < 1 / 16" by simp
  show "real_of_int \<lceil>x * 16\<rceil> / 16 \<le> of_int k / 16" if "x \<le> of_int k / 16" for k
    using that by (rule ceiling_sixteenth_least)
  show "roundUpToSixteenth (Finite x) = Finite x" if "x = of_int k / 16" for k
    unfolding eq using that by simp
next
  assume "2 ^ 1024 \<le> \<bar>x\<bar> * 16"
  then show "roundUpToSixteenth (Finite x) = (if 0 < x then Infinity else NegInfinity)"
    by (rule roundUpToSixteenth_out_of_range)
qed

theorem roundUpToSixteenth_smallest_multiple_witness:
  "is_double (- (3 / 32)) \<and> \<bar>- (3 / 32)\<bar> * 16 < (2::real) ^ 1024
   \<and> roundUpToSixteenth (Finite (- (3 / 32))) = Finite (- (1 / 16))
   \<and> - (3 / 32) \<le> (of_int (- 1) / 16 :: real)
   \<and> is_double (- (2 ^ 1020)) \<and> 2 ^ 1024 \<le> \<bar>- ((2::real) ^ 1020)\<bar> * 16
   \<and> roundUpToSixteenth (Finite (- (2 ^ 1020))) = NegInfinity"
  using roundUpToSixteenth_smallest_multiple [OF is_double_minus_3_32] is_double_minus_3_32
    roundUpToSixteenth_smallest_multiple [OF is_double_2_1020(2)] is_double_2_1020(2)
  by simp

text \<open>
  The claim as the specification words it, for every finite \<open>x\<close>, fails at the double
  \<open>2^1020\<close>: the result is \<^verbatim>\<open>Infinity\<close>, which is no multiple of 1/16 and does
  not exceed \<open>x\<close> by less than 1/16.
\<close>

theorem roundUpToSixteenth_overflow:
  "is_double (2 ^ 1020) \<and> roundUpToSixteenth (Finite (2 ^ 1020)) = Infinity"
proof -
  have "roundUpToSixteenth (Finite (2 ^ 1020)) = (if 0 < (2::real) ^ 1020 then Infinity else NegInfinity)"
    by (rule roundUpToSixteenth_out_of_range) simp
  with is_double_2_1020(1) show ?thesis by simp
qed

text \<open>
  C7. Rounding up to a sixteenth is idempotent, on every number: a finite result is an
  integer over 16, which the second call returns as it is, and \<^verbatim>\<open>NaN\<close> and the
  infinities are returned as they are.
\<close>

theorem roundUpToSixteenth_idempotent:
  "roundUpToSixteenth (roundUpToSixteenth x) = roundUpToSixteenth x"
proof (cases x)
  case (Finite r)
  show ?thesis
  proof (cases "fl (r * 16)")
    case NaN
    then show ?thesis by (simp add: fl_not_NaN)
  next
    case NegInfinity
    then have "roundUpToSixteenth (Finite r) = NegInfinity"
      by (simp add: roundUpToSixteenth_def lit_16 signed_infinity_def)
    then show ?thesis by (simp add: Finite roundUpToSixteenth_special)
  next
    case Infinity
    then have "roundUpToSixteenth (Finite r) = Infinity"
      by (simp add: roundUpToSixteenth_def lit_16 signed_infinity_def)
    then show ?thesis by (simp add: Finite roundUpToSixteenth_special)
  next
    case (Finite d)
    then have "is_double d" by (rule fl_is_double)
    then show ?thesis
      unfolding \<open>x = Finite r\<close> roundUpToSixteenth_finite [OF Finite]
      by (rule roundUpToSixteenth_grid)
  qed
qed (simp_all add: roundUpToSixteenth_special)

section \<open>Formatting as a fraction\<close>

lemma js_rem_int:
  assumes "0 \<le> a" "0 < b"
  shows "js_rem (Finite (of_int a)) (Finite (of_int b)) = Finite (of_int (a mod b))"
proof -
  have "0 \<le> real_of_int a / of_int b" using assms by simp
  then have "js_trunc (real_of_int a / of_int b) = \<lfloor>real_of_int a / of_int b\<rfloor>"
    by (simp add: js_trunc_def)
  also have "\<dots> = a div b" by (rule floor_divide_of_int_eq)
  finally have t: "js_trunc (real_of_int a / of_int b) = a div b" .
  have "real_of_int a - of_int b * of_int (a div b) = of_int (a - b * (a div b))" by simp
  also have "a - b * (a div b) = a mod b" by (simp add: minus_mult_div_eq_mod)
  finally show ?thesis using assms t by simp
qed

text \<open>On integral operands that are not negative \<open>findGCD\<close> returns the greatest common divisor.\<close>

lemma findGCD_int:
  "0 \<le> a \<Longrightarrow> 0 \<le> b \<Longrightarrow>
   findGCD (Finite (of_int a)) (Finite (of_int b)) = Some (Finite (of_int (gcd a b)))"
proof (induction "nat b" arbitrary: a b rule: less_induct)
  case less
  show ?case
  proof (cases "b = 0")
    case True
    with less.prems show ?thesis
      by (subst findGCD.simps) (simp add: lit_0)
  next
    case False
    with less.prems have pos: "0 < b" by simp
    have r: "js_rem (Finite (of_int a)) (Finite (of_int b)) = Finite (of_int (a mod b))"
      using less.prems(1) pos by (rule js_rem_int)
    have "nat (a mod b) < nat b" "0 \<le> a mod b" using pos by simp_all
    then have "findGCD (Finite (of_int b)) (Finite (of_int (a mod b)))
                 = Some (Finite (of_int (gcd b (a mod b))))"
      using less.hyps [of "a mod b" b] less.prems(2) by simp
    then show ?thesis
      using False by (subst findGCD.simps) (simp add: lit_0 r gcd_red_int [of a b] del: js_rem.simps)
  qed
qed





lemma show_digits_0: "show_digits 0 = ''0''"
  by (subst show_digits.simps) (simp add: digit_def)



lemma Number_toString_int:
  assumes "\<bar>n\<bar> < 2 ^ 53"
  shows "Number_toString (Finite (of_int n)) =
           (if n < 0 then CHR ''-'' # show_digits (- n) else show_digits n)"
proof -
  have small: "real_of_int m < 2 ^ 53" if "m < 2 ^ 53" for m :: int
  proof -
    from that have "real_of_int m < of_int (2 ^ 53)" by (simp only: of_int_less_iff)
    then show ?thesis by simp
  qed
  have pos: "positive_toString (of_int m) = show_digits m" if "m < 2 ^ 53" for m
    using small [OF that] by (simp add: positive_toString_def)
  consider "n = 0" | "n < 0" | "0 < n" by linarith
  then show ?thesis
  proof cases
    case 1
    then show ?thesis by (simp add: show_digits_0)
  next
    case 2
    with assms have "- n < 2 ^ 53" by simp
    from pos [OF this] 2 show ?thesis by simp
  next
    case 3
    with assms have "n < 2 ^ 53" by simp
    from pos [OF this] 3 show ?thesis by simp
  qed
qed

lemma simplifyFraction_sixteenths:
  assumes "0 \<le> s" "s < 16"
  shows "simplifyFraction (Finite (of_int s)) (lit 16) =
           Some \<lparr>numerator = Finite (of_int (s div gcd s 16)),
                 denominator = Finite (of_int (16 div gcd s 16))\<rparr>"
proof -
  define g where "g = gcd s 16"
  have g: "0 < g" "g dvd s" "g dvd 16" by (simp_all add: g_def)
  then have gle: "g \<le> 16" by (simp add: zdvd_imp_le)
  have "findGCD (Finite (of_int s)) (Finite (of_int 16)) = Some (Finite (of_int g))"
    unfolding g_def using assms(1) by (intro findGCD_int) simp_all
  then have f: "findGCD (Finite (of_int s)) (lit 16) = Some (Finite (of_int g))"
    by (simp add: lit_16)
  have q1: "real_of_int s / of_int g = of_int (s div g)"
    using g(2) by (simp add: real_of_int_div)
  have q2: "16 / real_of_int g = of_int (16 div g)"
    using g(3) real_of_int_div [of g 16] by simp
  have b1: "\<bar>s div g\<bar> \<le> 16"
  proof -
    have "0 \<le> s div g" using assms(1) g(1) by (simp add: pos_imp_zdiv_nonneg_iff)
    moreover have "s div g \<le> s div 1" using assms(1) g(1) by (intro zdiv_mono2) simp_all
    ultimately show ?thesis using assms(2) by simp
  qed
  have b2: "\<bar>16 div g\<bar> \<le> 16"
  proof -
    have "0 \<le> 16 div g" using g(1) by (simp add: pos_imp_zdiv_nonneg_iff)
    moreover have "16 div g \<le> 16 div 1" using g(1) by (intro zdiv_mono2) simp_all
    ultimately show ?thesis by simp
  qed
  have nz: "real_of_int g \<noteq> 0" using g(1) by simp
  show ?thesis
    unfolding simplifyFraction_def f g_def [symmetric]
    using nz by (simp add: lit_16 q1 q2 fl_small_int [OF b1] fl_small_int [OF b2])
qed

lemma formatInchesFraction_parts:
  fixes x :: real
  defines "k \<equiv> \<lceil>x * 16\<rceil>"
  assumes "is_double x" "\<bar>x\<bar> * 16 < 2 ^ 1024"
  shows "roundUpToSixteenth (Finite x) = Finite (of_int k / 16)"
    and "Math_floor (Finite (of_int k / 16)) = Finite (of_int (k div 16))"
    and "fsub (Finite (of_int k / 16)) (Finite (of_int (k div 16))) = Finite (of_int (k mod 16) / 16)"
    and "Math_round (fmul (Finite (of_int (k mod 16) / 16)) (lit 16)) = Finite (of_int (k mod 16))"
proof -
  show "roundUpToSixteenth (Finite x) = Finite (of_int k / 16)"
    unfolding k_def using assms(2,3) by (rule roundUpToSixteenth_in_range)
  have "\<lfloor>(of_int k :: real) / of_int 16\<rfloor> = k div 16"
    by (rule floor_divide_of_int_eq)
  then show "Math_floor (Finite (of_int k / 16)) = Finite (of_int (k div 16))" by simp
  have "real_of_int (16 * (k div 16) + k mod 16) = of_int k"
    by (simp only: mult_div_mod_eq)
  then have "(of_int k :: real) = 16 * of_int (k div 16) + of_int (k mod 16)"
    by (simp only: of_int_add of_int_mult of_int_numeral)
  then have d: "(of_int k :: real) / 16 - of_int (k div 16) = of_int (k mod 16) / 16"
    by (simp add: add_divide_distrib)
  have b: "\<bar>k mod 16\<bar> \<le> 16" by simp
  show "fsub (Finite (of_int k / 16)) (Finite (of_int (k div 16))) = Finite (of_int (k mod 16) / 16)"
    by (simp add: fsub_def d fl_small_sixteenth [OF b])
  have "\<lfloor>real_of_int (k mod 16) + 1 / 2\<rfloor> = k mod 16" by linarith
  then show "Math_round (fmul (Finite (of_int (k mod 16) / 16)) (lit 16)) = Finite (of_int (k mod 16))"
    by (simp add: lit_16 fl_small_int [OF b])
qed

lemma formatInchesFraction_unfold:
  fixes x :: real
  defines "k \<equiv> \<lceil>x * 16\<rceil>"
  defines "whole \<equiv> Number_toString (Finite (of_int (k div 16)))"
  defines "num \<equiv> (k mod 16) div gcd (k mod 16) 16"
  defines "den \<equiv> 16 div gcd (k mod 16) 16"
  assumes "is_double x" "\<bar>x\<bar> * 16 < 2 ^ 1024"
  shows "formatInchesFraction (Finite x) =
     Some (if k mod 16 = 0 then whole @ inch_mark
           else if k div 16 = 0 then show_digits num @ ''/'' @ show_digits den @ inch_mark
           else whole @ '' '' @ show_digits num @ ''/'' @ show_digits den @ inch_mark)"
proof -
  note p = formatInchesFraction_parts [OF assms(5,6), folded k_def]
  have frac: "simplifyFraction (Finite (of_int (k mod 16))) (lit 16) =
      Some \<lparr>numerator = Finite (of_int num), denominator = Finite (of_int den)\<rparr>"
    unfolding num_def den_def by (rule simplifyFraction_sixteenths) simp_all
  have zero: "strict_eq (Finite (real_of_int (k mod 16) / 16)) (lit 0) \<longleftrightarrow> k mod 16 = 0"
    by (simp add: lit_0)
  have wzero: "strict_eq (Finite (real_of_int (k div 16))) (lit 0) \<longleftrightarrow> k div 16 = 0"
    by (simp add: lit_0)
  have g: "0 < gcd (k mod 16) 16" by simp
  then have g1: "1 \<le> gcd (k mod 16) 16" by linarith
  have "0 \<le> num" unfolding num_def by (simp add: pos_imp_zdiv_nonneg_iff)
  moreover have "num \<le> (k mod 16) div 1" unfolding num_def using g1 by (intro zdiv_mono2) simp_all
  ultimately have n: "Number_toString (Finite (of_int num)) = show_digits num"
    using Number_toString_int [of num] by simp
  have "0 \<le> den" unfolding den_def by (simp add: pos_imp_zdiv_nonneg_iff)
  moreover have "den \<le> 16 div 1" unfolding den_def using g1 by (intro zdiv_mono2) simp_all
  ultimately have d: "Number_toString (Finite (of_int den)) = show_digits den"
    using Number_toString_int [of den] by simp
  show ?thesis
    unfolding formatInchesFraction_def Let_def p frac zero wzero whole_def
    by (simp add: n d del: Number_toString.simps)
qed


text \<open>From \<open>10^21\<close> on, a whole part is printed with an exponent.\<close>

lemma decimal_exponent_power: "decimal_exponent (10 ^ n) = int n + 1"
proof (induction n)
  case 0
  show ?case by (subst decimal_exponent.simps) simp
next
  case (Suc n)
  have "(1::real) \<le> 10 ^ n" by simp
  then have b: "\<not> 10 * (10::real) ^ n \<le> 0" "\<not> 10 * (10::real) ^ n < 1"
    "(10::real) \<le> 10 * 10 ^ n"
    by linarith+
  have "decimal_exponent (10 * 10 ^ n) = decimal_exponent (10 * 10 ^ n / 10) + 1"
    by (subst decimal_exponent.simps) (simp only: b if_False if_True)
  with Suc show ?case by simp
qed

lemma is_double_1e21: "is_double (10 ^ 21)" "is_double (2 * 10 ^ 21)"
proof -
  show "is_double (10 ^ 21)"
  proof (rule is_doubleI [of _ 476837158203125 21])
    show "(10::real) ^ 21 = real_of_int 476837158203125 * 2 powi 21" by simp
  qed simp_all
  show "is_double (2 * 10 ^ 21)"
  proof (rule is_doubleI [of _ 476837158203125 22])
    show "2 * (10::real) ^ 21 = real_of_int 476837158203125 * 2 powi 22" by simp
  qed simp_all
qed

lemma Number_toString_1e21: "Number_toString (Finite (10 ^ 21)) = ''1e+21''"
proof -
  have n: "decimal_exponent (10 ^ 21) = 22"
    using decimal_exponent_power [of 21] by simp
  have d: "fl (10 ^ 21) = Finite (10 ^ 21)" "fl (2 * 10 ^ 21) = Finite (2 * 10 ^ 21)"
    using is_double_1e21 by (simp_all add: is_double_def)
  have c: "digits_candidate (10 ^ 21) 22 1 = Some 1"
    using d by (simp add: digits_candidate_def Let_def)
  have s: "show_digits 1 = ''1''" "show_digits 21 = ''21''" by code_simp+
  have "positive_toString (10 ^ 21) = ''1e+21''"
    using n c s by (simp add: positive_toString_def format_digits_def Let_def eval_nat_numeral)
  then show ?thesis by simp
qed

lemma formatInchesFraction_1e21:
  "formatInchesFraction (lit (10 ^ 21)) = Some (''1e+21'' @ inch_mark)"
proof -
  have l: "lit (10 ^ 21) = Finite (10 ^ 21)"
    using is_double_1e21(1) by (simp add: lit_def is_double_def)
  show ?thesis
    unfolding l
    using formatInchesFraction_unfold [OF is_double_1e21(1)] Number_toString_1e21
    by (simp del: Number_toString.simps)
qed





section \<open>Aggregation and recommendation\<close>

lemma reduce_confidence:
  "reduce (\<lambda>sum p. fadd sum (PassResult_page.confidence p)) z ps
     = foldl fadd z (map PassResult_page.confidence ps)"
  unfolding reduce_def by (induction ps arbitrary: z) simp_all

lemma length_number_small:
  "length xs \<le> 16 \<Longrightarrow> length_number xs = Finite (of_nat (length xs))"
  using fl_small_int [of "int (length xs)"] by (simp add: length_number_def)

lemma lt_irrefl: "\<not> lt a a"
  by (cases a) simp_all

lemma not_lt_trans:
  assumes "a \<noteq> NaN" "b \<noteq> NaN" "c \<noteq> NaN" "\<not> lt a b" "\<not> lt b c"
  shows "\<not> lt a c"
  using assms by (cases a; cases b; cases c) simp_all

lemma max2_props:
  assumes "a \<noteq> NaN" "b \<noteq> NaN"
  shows "max2 a b \<noteq> NaN" "max2 a b = a \<or> max2 a b = b" "\<not> lt (max2 a b) a" "\<not> lt (max2 a b) b"
  using assms by (cases a; cases b; simp add: max2_def)+

lemma min2_props:
  assumes "a \<noteq> NaN" "b \<noteq> NaN"
  shows "min2 a b \<noteq> NaN" "min2 a b = a \<or> min2 a b = b" "\<not> lt a (min2 a b)" "\<not> lt b (min2 a b)"
  using assms by (cases a; cases b; simp add: min2_def)+

lemma foldl_max2:
  assumes "a \<noteq> NaN" "NaN \<notin> set xs"
  shows "foldl max2 a xs \<noteq> NaN \<and> foldl max2 a xs \<in> insert a (set xs)
         \<and> \<not> lt (foldl max2 a xs) a \<and> (\<forall>w\<in>set xs. \<not> lt (foldl max2 a xs) w)"
  using assms
proof (induction xs arbitrary: a)
  case Nil
  then show ?case by (simp add: lt_irrefl)
next
  case (Cons x xs)
  from Cons.prems have x: "x \<noteq> NaN" and xs: "NaN \<notin> set xs" by auto
  note m = max2_props [OF Cons.prems(1) x]
  from Cons.IH [OF m(1) xs] have ih: "foldl max2 (max2 a x) xs \<noteq> NaN"
    "foldl max2 (max2 a x) xs \<in> insert (max2 a x) (set xs)"
    "\<not> lt (foldl max2 (max2 a x) xs) (max2 a x)"
    "\<forall>w\<in>set xs. \<not> lt (foldl max2 (max2 a x) xs) w" by simp_all
  have "\<not> lt (foldl max2 (max2 a x) xs) a"
    using not_lt_trans [OF ih(1) m(1) Cons.prems(1) ih(3) m(3)] .
  moreover have "\<not> lt (foldl max2 (max2 a x) xs) x"
    using not_lt_trans [OF ih(1) m(1) x ih(3) m(4)] .
  ultimately show ?case using ih m(2) by auto
qed

lemma foldl_min2:
  assumes "a \<noteq> NaN" "NaN \<notin> set xs"
  shows "foldl min2 a xs \<noteq> NaN \<and> foldl min2 a xs \<in> insert a (set xs)
         \<and> \<not> lt a (foldl min2 a xs) \<and> (\<forall>w\<in>set xs. \<not> lt w (foldl min2 a xs))"
  using assms
proof (induction xs arbitrary: a)
  case Nil
  then show ?case by (simp add: lt_irrefl)
next
  case (Cons x xs)
  from Cons.prems have x: "x \<noteq> NaN" and xs: "NaN \<notin> set xs" by auto
  note m = min2_props [OF Cons.prems(1) x]
  from Cons.IH [OF m(1) xs] have ih: "foldl min2 (min2 a x) xs \<noteq> NaN"
    "foldl min2 (min2 a x) xs \<in> insert (min2 a x) (set xs)"
    "\<not> lt (min2 a x) (foldl min2 (min2 a x) xs)"
    "\<forall>w\<in>set xs. \<not> lt w (foldl min2 (min2 a x) xs)" by simp_all
  have "\<not> lt a (foldl min2 (min2 a x) xs)"
    using not_lt_trans [OF Cons.prems(1) m(1) ih(1) m(3) ih(3)] .
  moreover have "\<not> lt x (foldl min2 (min2 a x) xs)"
    using not_lt_trans [OF x m(1) ih(1) m(4) ih(3)] .
  ultimately show ?case using ih m(2) by auto
qed

lemma max2_NaN: "max2 NaN b = NaN" "max2 a NaN = NaN"
  by (simp_all add: max2_def)

lemma foldl_max2_NaN: "foldl max2 NaN xs = NaN"
  by (induction xs) (simp_all add: max2_NaN)

lemma Math_max_NaN: "NaN \<in> set xs \<Longrightarrow> Math_max xs = NaN"
proof -
  have "NaN \<in> set xs \<Longrightarrow> foldl max2 a xs = NaN" for a
  proof (induction xs arbitrary: a)
    case (Cons x xs)
    show ?case
    proof (cases "x = NaN")
      case True
      then show ?thesis by (simp add: max2_NaN foldl_max2_NaN)
    next
      case False
      with Cons show ?thesis by simp
    qed
  qed simp
  then show "NaN \<in> set xs \<Longrightarrow> Math_max xs = NaN" by (simp add: Math_max_def)
qed

text \<open>
  On a non-empty list without \<^verbatim>\<open>NaN\<close>, \<open>Math_max\<close> returns an element that no element
  exceeds, and \<open>Math_min\<close> an element that exceeds no element.
\<close>

lemma Math_max_greatest:
  assumes "xs \<noteq> []" "NaN \<notin> set xs"
  shows "Math_max xs \<in> set xs" and "\<forall>w\<in>set xs. \<not> lt (Math_max xs) w"
proof -
  from foldl_max2 [of NegInfinity xs] assms(2)
  have f: "Math_max xs \<in> insert NegInfinity (set xs)" "\<forall>w\<in>set xs. \<not> lt (Math_max xs) w"
    "Math_max xs \<noteq> NaN"
    by (simp_all add: Math_max_def)
  show "\<forall>w\<in>set xs. \<not> lt (Math_max xs) w" by fact
  show "Math_max xs \<in> set xs"
  proof (cases "Math_max xs = NegInfinity")
    case True
    from assms(1) obtain w where w: "w \<in> set xs" by (cases xs) auto
    with f(2) True have "\<not> lt NegInfinity w" by simp
    moreover from w assms(2) have "w \<noteq> NaN" by auto
    ultimately have "w = NegInfinity" by (cases w) simp_all
    with w True show ?thesis by simp
  next
    case False
    with f(1) show ?thesis by simp
  qed
qed

lemma Math_min_least:
  assumes "xs \<noteq> []" "NaN \<notin> set xs"
  shows "Math_min xs \<in> set xs" and "\<forall>w\<in>set xs. \<not> lt w (Math_min xs)"
proof -
  from foldl_min2 [of Infinity xs] assms(2)
  have f: "Math_min xs \<in> insert Infinity (set xs)" "\<forall>w\<in>set xs. \<not> lt w (Math_min xs)"
    "Math_min xs \<noteq> NaN"
    by (simp_all add: Math_min_def)
  show "\<forall>w\<in>set xs. \<not> lt w (Math_min xs)" by fact
  show "Math_min xs \<in> set xs"
  proof (cases "Math_min xs = Infinity")
    case True
    from assms(1) obtain w where w: "w \<in> set xs" by (cases xs) auto
    with f(2) True have "\<not> lt w Infinity" by simp
    moreover from w assms(2) have "w \<noteq> NaN" by auto
    ultimately have "w = Infinity" by (cases w) simp_all
    with w True show ?thesis by simp
  next
    case False
    with f(1) show ?thesis by simp
  qed
qed

lemma Math_max_pair: "Math_max [a, b] = max2 a b" "Math_min [a, b] = min2 a b"
  by (cases a; cases b; simp add: Math_max_def Math_min_def max2_def min2_def)+

lemma spread_ok: "length args \<le> argLimit \<Longrightarrow> spread argLimit f args = Inr (f args)"
  by (simp add: spread_def)

lemma aggregateResults_unfold:
  assumes "ps \<noteq> []" "length ps \<le> argLimit"
  shows "aggregateResults argLimit ps =
     (let avg = fdiv (foldl fadd (lit 0) (map PassResult_page.confidence ps)) (length_number ps)
      in Inr \<lparr>widthInches = roundUpToSixteenth (Math_max (map widthInInches ps)),
               heightInches = roundUpToSixteenth (Math_max (map heightInInches ps)),
               averageConfidence = avg,
               category = (if ge avg (lit 0.85) then Excellent
                           else if ge avg (lit 0.65) then OK else NotGreat),
               passCount = length ps, passes = ps\<rparr>)"
  using assms by (simp add: aggregateResults_def Let_def spread_ok reduce_confidence)

lemma aggregateResults_too_many:
  "argLimit < n \<Longrightarrow> aggregateResults argLimit (replicate n p) = Inl RangeError"
  by (simp add: aggregateResults_def spread_def)

lemma shouldRecommendAdditionalPass_unfold:
  assumes "2 \<le> argLimit"
  shows "shouldRecommendAdditionalPass argLimit ps =
     Inr (let widths = map widthInInches ps;
              heights = map heightInInches ps;
              avg = fdiv (foldl fadd (lit 0) (map PassResult_page.confidence ps)) (length_number ps)
          in if ps = [] then \<lparr>recommend = False, reason = ''No passes yet''\<rparr>
             else if length ps \<ge> 3
               then \<lparr>recommend = False, reason = ''Maximum passes reached''\<rparr>
             else if lt avg (lit 0.65)
               then \<lparr>recommend = True,
                      reason = ''Low confidence - an additional pass may improve accuracy''\<rparr>
             else if length ps \<ge> 2
                     \<and> (gt (fsub (Math_max widths) (Math_min widths)) (lit 1)
                          \<or> gt (fsub (Math_max heights) (Math_min heights)) (lit 1))
               then \<lparr>recommend = True,
                      reason = ''Measurements vary between passes - an additional pass may help''\<rparr>
             else \<lparr>recommend = False, reason = ''Measurements look good''\<rparr>)"
proof (cases "length ps \<ge> 3 \<or> ps = []")
  case True
  then show ?thesis by (auto simp: shouldRecommendAdditionalPass_def Let_def)
next
  case False
  then have "length ps \<le> argLimit" using assms by simp
  then have sp: "spread argLimit f (map g ps) = Inr (f (map g ps))" for f and g :: "PassResult \<Rightarrow> number"
    by (simp add: spread_ok)
  from False show ?thesis
    by (simp add: shouldRecommendAdditionalPass_def Let_def sp reduce_confidence)
qed

lemma foldl_appendPass: "foldl appendPass ps rs = ps @ rs"
  by (induction rs arbitrary: ps) (simp_all add: appendPass_def)


lemma sum_3_10_1:
  "fl (23418718062326579 / 18014398509481984) = Finite (5854679515581645 / 4503599627370496)"
  using fl_in_binade [of 0 "23418718062326579 / 18014398509481984" 5854679515581645]
  by (simp add: round_half_even_def)

lemma half_13_10:
  "fl (5854679515581645 / 9007199254740992) = Finite (5854679515581645 / 9007199254740992)"
  using fl_dyadic [of 5854679515581645 53] by simp

lemma fl_one_and_a_bit:
  "fl (1152921504606846977 / 1152921504606846976) = Finite 1"
  using fl_in_binade [of 0 "1152921504606846977 / 1152921504606846976" 4503599627370496]
  by (simp add: round_half_even_def)


text \<open>
  Two inputs on which the rounding shows. The confidences \<^verbatim>\<open>0.6\<close> and \<^verbatim>\<open>0.7\<close>
  have the average \<^verbatim>\<open>0.6499999999999999\<close>, under the double \<^verbatim>\<open>0.65\<close>. The widths
  \<^verbatim>\<open>31.2\<close> and \<^verbatim>\<open>32.2\<close> have the range \<open>1 + 2^(-48)\<close>, over 1.
\<close>

lemma lit_3_5: "lit (3 / 5) = Finite (5404319552844595 / 9007199254740992)"
  unfolding lit_def
  using fl_in_binade [of "- 1" "3 / 5" 5404319552844595]
  by (simp add: round_half_even_def)

lemma lit_7_10: "lit (7 / 10) = Finite (3152519739159347 / 4503599627370496)"
  unfolding lit_def
  using fl_in_binade [of "- 1" "7 / 10" 6305039478318694]
  by (simp add: round_half_even_def)

lemma lit_156_5: "lit (156 / 5) = Finite (8782019273372467 / 281474976710656)"
  unfolding lit_def
  using fl_in_binade [of 4 "156 / 5" 8782019273372467]
  by (simp add: round_half_even_def)

lemma lit_161_5: "lit (161 / 5) = Finite (2265873562520781 / 70368744177664)"
  unfolding lit_def
  using fl_in_binade [of 5 "161 / 5" 4531747125041562]
  by (simp add: round_half_even_def)

lemma sum_3_5_7_10:
  "fl (11709359031163289 / 9007199254740992) = Finite (1463669878895411 / 1125899906842624)"
  using fl_in_binade [of 0 "11709359031163289 / 9007199254740992" 5854679515581644]
  by (simp add: round_half_even_def)

lemma examples_of_rounding:
  "aggregateResults 2
     [createPassResult (lit 36) (lit 48) (lit 0.6) (lit 0),
      createPassResult (lit 36) (lit 48) (lit 0.7) (lit 0)]
     = Inr \<lparr>widthInches = Finite 36, heightInches = Finite 48,
            averageConfidence = Finite (1463669878895411 / 2251799813685248),
            category = NotGreat, passCount = 2,
            passes = [createPassResult (lit 36) (lit 48) (lit 0.6) (lit 0),
                      createPassResult (lit 36) (lit 48) (lit 0.7) (lit 0)]\<rparr>"
  "shouldRecommendAdditionalPass 2
     [createPassResult (lit 36) (lit 48) (lit 0.6) (lit 0),
      createPassResult (lit 36) (lit 48) (lit 0.7) (lit 0)]
     = Inr \<lparr>recommend = True,
            reason = ''Low confidence - an additional pass may improve accuracy''\<rparr>"
  "shouldRecommendAdditionalPass 2
     [createPassResult (lit 31.2) (lit 48) (lit 1) (lit 0),
      createPassResult (lit 32.2) (lit 48) (lit 1) (lit 0)]
     = Inr \<lparr>recommend = True,
            reason = ''Measurements vary between passes - an additional pass may help''\<rparr>"
proof -
  have f: "fl (5404319552844595 / 9007199254740992) = Finite (5404319552844595 / 9007199254740992)"
    "fl (1463669878895411 / 2251799813685248) = Finite (1463669878895411 / 2251799813685248)"
    "fl (281474976710657 / 281474976710656) = Finite (281474976710657 / 281474976710656)"
    "fl 0 = Finite 0" "fl 1 = Finite 1" "fl 2 = Finite 2"
    using fl_dyadic [of 5404319552844595 53] fl_dyadic [of 1463669878895411 51]
      fl_dyadic [of 281474976710657 48] fl_dyadic [of 0 0] fl_dyadic [of 1 0] fl_dyadic [of 2 0]
    by simp_all
  have n: "length_number [a, b] = Finite 2" for a b :: PassResult
    using length_number_small [of "[a, b]"] by simp
  note s = Let_def createPassResult_def lit_0 lit_1 lit_13_20 lit_17_20 lit_36 lit_48 lit_3_5
    lit_7_10 lit_156_5 lit_161_5 f n Math_max_pair max2_def min2_def gt_def ge_def fsub_def
    sum_3_5_7_10 roundUpToSixteenth_36 roundUpToSixteenth_48
  show "aggregateResults 2
     [createPassResult (lit 36) (lit 48) (lit 0.6) (lit 0),
      createPassResult (lit 36) (lit 48) (lit 0.7) (lit 0)]
     = Inr \<lparr>widthInches = Finite 36, heightInches = Finite 48,
            averageConfidence = Finite (1463669878895411 / 2251799813685248),
            category = NotGreat, passCount = 2,
            passes = [createPassResult (lit 36) (lit 48) (lit 0.6) (lit 0),
                      createPassResult (lit 36) (lit 48) (lit 0.7) (lit 0)]\<rparr>"
    using aggregateResults_unfold [of
        "[createPassResult (lit 36) (lit 48) (lit 0.6) (lit 0),
          createPassResult (lit 36) (lit 48) (lit 0.7) (lit 0)]" 2]
    by (simp add: s)
  show "shouldRecommendAdditionalPass 2
     [createPassResult (lit 36) (lit 48) (lit 0.6) (lit 0),
      createPassResult (lit 36) (lit 48) (lit 0.7) (lit 0)]
     = Inr \<lparr>recommend = True,
            reason = ''Low confidence - an additional pass may improve accuracy''\<rparr>"
    using shouldRecommendAdditionalPass_unfold [of 2
        "[createPassResult (lit 36) (lit 48) (lit 0.6) (lit 0),
          createPassResult (lit 36) (lit 48) (lit 0.7) (lit 0)]"]
    by (simp add: s)
  show "shouldRecommendAdditionalPass 2
     [createPassResult (lit 31.2) (lit 48) (lit 1) (lit 0),
      createPassResult (lit 32.2) (lit 48) (lit 1) (lit 0)]
     = Inr \<lparr>recommend = True,
            reason = ''Measurements vary between passes - an additional pass may help''\<rparr>"
    using shouldRecommendAdditionalPass_unfold [of 2
        "[createPassResult (lit 31.2) (lit 48) (lit 1) (lit 0),
          createPassResult (lit 32.2) (lit 48) (lit 1) (lit 0)]"]
    by (simp add: s)
qed

text \<open>
  C1, as the source has it. For a non-empty sequence of passes that is not longer than
  the number of arguments a spread call accepts, the result of \<open>aggregateResults\<close> has
  as width the greatest width of the passes rounded up to a sixteenth, as height the
  greatest height of the passes rounded up to a sixteenth (each maximum taken on its own:
  when no width is \<^verbatim>\<open>NaN\<close>, the maximum is a width of the sequence that no width
  exceeds, and likewise for the heights), as average confidence the double that the source
  computes, which is the confidences added from the left, each sum rounded to a double,
  and the total divided by the length and rounded again; as category Excellent when this
  double is at least the double \<^verbatim>\<open>0.85\<close>, OK when it is at least the double
  \<^verbatim>\<open>0.65\<close> and Not Great otherwise; and as pass count the length of the sequence. In
  the witness the widest pass is the first and the tallest the second.
\<close>

theorem aggregateResults_nonempty:
  assumes "ps \<noteq> []" "length ps \<le> argLimit"
  shows "let widths = map widthInInches ps;
             heights = map heightInInches ps;
             avg = fdiv (foldl fadd (lit 0) (map PassResult_page.confidence ps)) (length_number ps)
         in aggregateResults argLimit ps =
              Inr \<lparr>widthInches = roundUpToSixteenth (Math_max widths),
                    heightInches = roundUpToSixteenth (Math_max heights),
                    averageConfidence = avg,
                    category = (if ge avg (lit 0.85) then Excellent
                                else if ge avg (lit 0.65) then OK else NotGreat),
                    passCount = length ps, passes = ps\<rparr>
            \<and> (NaN \<notin> set widths \<longrightarrow>
                   Math_max widths \<in> set widths \<and> (\<forall>w\<in>set widths. \<not> lt (Math_max widths) w))
            \<and> (NaN \<notin> set heights \<longrightarrow>
                   Math_max heights \<in> set heights \<and> (\<forall>h\<in>set heights. \<not> lt (Math_max heights) h))"
proof -
  from assms(1) have ne: "map widthInInches ps \<noteq> []" "map heightInInches ps \<noteq> []" by simp_all
  show ?thesis
    unfolding Let_def
    using aggregateResults_unfold [OF assms] Math_max_greatest [OF ne(1)] Math_max_greatest [OF ne(2)]
    by (simp add: Let_def)
qed

theorem aggregateResults_nonempty_witness:
  "[createPassResult (Finite (1159 / 32)) (Finite (95 / 2)) (Finite (3 / 4)) (Finite 0),
    createPassResult (Finite (143 / 4)) (Finite (1539 / 32)) (Finite (7 / 8)) (Finite 1)] \<noteq> []
   \<and> length
        [createPassResult (Finite (1159 / 32)) (Finite (95 / 2)) (Finite (3 / 4)) (Finite 0),
         createPassResult (Finite (143 / 4)) (Finite (1539 / 32)) (Finite (7 / 8)) (Finite 1)]
       \<le> (2::nat)
   \<and> aggregateResults 2
        [createPassResult (Finite (1159 / 32)) (Finite (95 / 2)) (Finite (3 / 4)) (Finite 0),
         createPassResult (Finite (143 / 4)) (Finite (1539 / 32)) (Finite (7 / 8)) (Finite 1)]
       = Inr \<lparr>widthInches = Finite (145 / 4), heightInches = Finite (385 / 8),
              averageConfidence = Finite (13 / 16), category = OK, passCount = 2,
              passes =
                [createPassResult (Finite (1159 / 32)) (Finite (95 / 2)) (Finite (3 / 4)) (Finite 0),
                 createPassResult (Finite (143 / 4)) (Finite (1539 / 32)) (Finite (7 / 8)) (Finite 1)]\<rparr>"
proof -
  define p1 where "p1 = createPassResult (Finite (1159 / 32)) (Finite (95 / 2)) (Finite (3 / 4)) (Finite 0)"
  define p2 where "p2 = createPassResult (Finite (143 / 4)) (Finite (1539 / 32)) (Finite (7 / 8)) (Finite 1)"
  have fields:
    "widthInInches p1 = Finite (1159 / 32)" "widthInInches p2 = Finite (143 / 4)"
    "heightInInches p1 = Finite (95 / 2)" "heightInInches p2 = Finite (1539 / 32)"
    "PassResult_page.confidence p1 = Finite (3 / 4)" "PassResult_page.confidence p2 = Finite (7 / 8)"
    by (simp_all add: p1_def p2_def createPassResult_def)
  have w: "Math_max [Finite (1159 / 32), Finite (143 / 4)] = Finite (1159 / 32)"
    and h: "Math_max [Finite (95 / 2), Finite (1539 / 32)] = Finite (1539 / 32)"
    by (simp_all add: Math_max_def max2_def)
  have rw: "roundUpToSixteenth (Finite (1159 / 32)) = Finite (145 / 4)"
    using roundUpToSixteenth_of_32nds [of 1159] by simp
  have rh: "roundUpToSixteenth (Finite (1539 / 32)) = Finite (385 / 8)"
    using roundUpToSixteenth_of_32nds [of 1539] by simp
  have f: "fl (3 / 4) = Finite (3 / 4)" "fl (13 / 8) = Finite (13 / 8)"
    "fl (13 / 16) = Finite (13 / 16)"
    using fl_dyadic [of 3 2] fl_dyadic [of 13 3] fl_dyadic [of 13 4] by simp_all
  have n: "length_number [p1, p2] = Finite 2"
    using length_number_small [of "[p1, p2]"] by simp
  have c: "\<not> ge (Finite (13 / 16)) (lit (17 / 20))" "ge (Finite (13 / 16)) (lit (13 / 20))"
    by (simp_all add: ge_def lit_17_20 lit_13_20)
  have "aggregateResults 2 [p1, p2] =
      Inr \<lparr>widthInches = Finite (145 / 4), heightInches = Finite (385 / 8),
            averageConfidence = Finite (13 / 16), category = OK, passCount = 2,
            passes = [p1, p2]\<rparr>"
    using aggregateResults_nonempty [of "[p1, p2]" 2]
    by (simp add: Let_def fields w h rw rh f n c lit_0)
  then show ?thesis unfolding p1_def p2_def by simp
qed

text \<open>
  The claim as the specification words it fails in two ways. The average confidence is
  not the arithmetic mean of the confidences: for the confidences \<^verbatim>\<open>0.3\<close> and \<^verbatim>\<open>1\<close>
  the sum is rounded up, the average returned is the double \<^verbatim>\<open>0.65\<close> and the category
  is OK, while the mean of the two doubles is smaller and under 0.65, for which the
  thresholds give Not Great. And a result is not returned for every non-empty sequence:
  with a bound of 125000 arguments, 200000 passes end the call by a \<^verbatim>\<open>RangeError\<close>.
\<close>

theorem aggregateResults_rounded_mean:
  "PassResult_page.confidence (createPassResult (lit 36) (lit 48) (lit (3 / 10)) (lit 0))
     = Finite (5404319552844595 / 18014398509481984)
   \<and> PassResult_page.confidence (createPassResult (lit 36) (lit 48) (lit 1) (lit 0)) = Finite 1
   \<and> aggregateResults 2
        [createPassResult (lit 36) (lit 48) (lit (3 / 10)) (lit 0),
         createPassResult (lit 36) (lit 48) (lit 1) (lit 0)]
       = Inr \<lparr>widthInches = Finite 36, heightInches = Finite 48,
              averageConfidence = Finite (5854679515581645 / 9007199254740992),
              category = OK, passCount = 2,
              passes = [createPassResult (lit 36) (lit 48) (lit (3 / 10)) (lit 0),
                        createPassResult (lit 36) (lit 48) (lit 1) (lit 0)]\<rparr>
   \<and> (5404319552844595 / 18014398509481984 + 1) / 2
       < (5854679515581645 / 9007199254740992 :: real)
   \<and> (5404319552844595 / 18014398509481984 + 1) / 2 < (65 / 100 :: real)
   \<and> aggregateResults 125000
        (replicate 200000 (createPassResult (lit 36) (lit 48) (lit 1) (lit 0)))
       = Inl RangeError"
proof -
  define p1 where "p1 = createPassResult (lit 36) (lit 48) (lit (3 / 10)) (lit 0)"
  define p2 where "p2 = createPassResult (lit 36) (lit 48) (lit 1) (lit 0)"
  have c: "PassResult_page.confidence p1 = Finite (5404319552844595 / 18014398509481984)"
    "PassResult_page.confidence p2 = Finite 1"
    "widthInInches p1 = Finite 36" "widthInInches p2 = Finite 36"
    "heightInInches p1 = Finite 48" "heightInInches p2 = Finite 48"
    by (simp_all add: p1_def p2_def createPassResult_def lit_3_10 lit_1 lit_36 lit_48)
  have z: "fl (5404319552844595 / 18014398509481984) = Finite (5404319552844595 / 18014398509481984)"
    using fl_dyadic [of 5404319552844595 54] by simp
  have n: "length_number [p1, p2] = Finite 2"
    using length_number_small [of "[p1, p2]"] by simp
  have g: "\<not> ge (Finite (5854679515581645 / 9007199254740992)) (lit (17 / 20))"
    "ge (Finite (5854679515581645 / 9007199254740992)) (lit (13 / 20))"
    by (simp_all add: ge_def lit_17_20 lit_13_20)
  have a: "aggregateResults 2 [p1, p2]
       = Inr \<lparr>widthInches = Finite 36, heightInches = Finite 48,
              averageConfidence = Finite (5854679515581645 / 9007199254740992),
              category = OK, passCount = 2, passes = [p1, p2]\<rparr>"
    using aggregateResults_unfold [of "[p1, p2]" 2]
    by (simp add: Let_def c n lit_0 z sum_3_10_1 half_13_10 Math_max_pair max2_def
        roundUpToSixteenth_36 roundUpToSixteenth_48 g)
  have b: "aggregateResults 125000 (replicate 200000 p2) = Inl RangeError"
    by (rule aggregateResults_too_many) simp
  from a b c(1,2) show ?thesis unfolding p1_def p2_def by simp
qed

text \<open>
  C2, as the source has it. On an engine whose spread calls accept two arguments,
  \<open>shouldRecommendAdditionalPass\<close> is an ordered chain, the first rule that applies
  deciding: no pass; three passes or more; an average confidence, computed in doubles as
  \<open>aggregateResults\<close> computes it, under the double \<^verbatim>\<open>0.65\<close>; with two passes or more,
  a range of the widths or of the heights that, subtracted in doubles, is over 1;
  otherwise the measurements look good. When no width is \<^verbatim>\<open>NaN\<close>, the maximum and the
  minimum are widths of the sequence that bound every width, and likewise for the heights.
\<close>

theorem shouldRecommendAdditionalPass_chain:
  assumes "2 \<le> argLimit"
  shows "shouldRecommendAdditionalPass argLimit ps =
     Inr (let widths = map widthInInches ps;
              heights = map heightInInches ps;
              avg = fdiv (foldl fadd (lit 0) (map PassResult_page.confidence ps)) (length_number ps)
          in if ps = [] then \<lparr>recommend = False, reason = ''No passes yet''\<rparr>
             else if length ps \<ge> 3
               then \<lparr>recommend = False, reason = ''Maximum passes reached''\<rparr>
             else if lt avg (lit 0.65)
               then \<lparr>recommend = True,
                      reason = ''Low confidence - an additional pass may improve accuracy''\<rparr>
             else if length ps \<ge> 2
                     \<and> (gt (fsub (Math_max widths) (Math_min widths)) (lit 1)
                          \<or> gt (fsub (Math_max heights) (Math_min heights)) (lit 1))
               then \<lparr>recommend = True,
                      reason = ''Measurements vary between passes - an additional pass may help''\<rparr>
             else \<lparr>recommend = False, reason = ''Measurements look good''\<rparr>)
     \<and> (ps \<noteq> [] \<and> NaN \<notin> set (map widthInInches ps) \<longrightarrow>
            Math_max (map widthInInches ps) \<in> set (map widthInInches ps)
          \<and> Math_min (map widthInInches ps) \<in> set (map widthInInches ps)
          \<and> (\<forall>w\<in>set (map widthInInches ps).
                \<not> lt (Math_max (map widthInInches ps)) w \<and> \<not> lt w (Math_min (map widthInInches ps))))
     \<and> (ps \<noteq> [] \<and> NaN \<notin> set (map heightInInches ps) \<longrightarrow>
            Math_max (map heightInInches ps) \<in> set (map heightInInches ps)
          \<and> Math_min (map heightInInches ps) \<in> set (map heightInInches ps)
          \<and> (\<forall>h\<in>set (map heightInInches ps).
                \<not> lt (Math_max (map heightInInches ps)) h \<and> \<not> lt h (Math_min (map heightInInches ps))))"
proof (intro conjI impI)
  show "shouldRecommendAdditionalPass argLimit ps =
     Inr (let widths = map widthInInches ps;
              heights = map heightInInches ps;
              avg = fdiv (foldl fadd (lit 0) (map PassResult_page.confidence ps)) (length_number ps)
          in if ps = [] then \<lparr>recommend = False, reason = ''No passes yet''\<rparr>
             else if length ps \<ge> 3
               then \<lparr>recommend = False, reason = ''Maximum passes reached''\<rparr>
             else if lt avg (lit 0.65)
               then \<lparr>recommend = True,
                      reason = ''Low confidence - an additional pass may improve accuracy''\<rparr>
             else if length ps \<ge> 2
                     \<and> (gt (fsub (Math_max widths) (Math_min widths)) (lit 1)
                          \<or> gt (fsub (Math_max heights) (Math_min heights)) (lit 1))
               then \<lparr>recommend = True,
                      reason = ''Measurements vary between passes - an additional pass may help''\<rparr>
             else \<lparr>recommend = False, reason = ''Measurements look good''\<rparr>)"
    using assms by (rule shouldRecommendAdditionalPass_unfold)
next
  assume a: "ps \<noteq> [] \<and> NaN \<notin> set (map widthInInches ps)"
  then have ne: "map widthInInches ps \<noteq> []" by simp
  from a Math_max_greatest [OF ne] Math_min_least [OF ne]
  show "Math_max (map widthInInches ps) \<in> set (map widthInInches ps)"
    "Math_min (map widthInInches ps) \<in> set (map widthInInches ps)"
    "\<forall>w\<in>set (map widthInInches ps).
        \<not> lt (Math_max (map widthInInches ps)) w \<and> \<not> lt w (Math_min (map widthInInches ps))"
    by blast+
next
  assume a: "ps \<noteq> [] \<and> NaN \<notin> set (map heightInInches ps)"
  then have ne: "map heightInInches ps \<noteq> []" by simp
  from a Math_max_greatest [OF ne] Math_min_least [OF ne]
  show "Math_max (map heightInInches ps) \<in> set (map heightInInches ps)"
    "Math_min (map heightInInches ps) \<in> set (map heightInInches ps)"
    "\<forall>h\<in>set (map heightInInches ps).
        \<not> lt (Math_max (map heightInInches ps)) h \<and> \<not> lt h (Math_min (map heightInInches ps))"
    by blast+
qed

theorem shouldRecommendAdditionalPass_chain_witness:
  "(2::nat) \<le> 2
   \<and> shouldRecommendAdditionalPass 2 [] = Inr \<lparr>recommend = False, reason = ''No passes yet''\<rparr>
   \<and> shouldRecommendAdditionalPass 2
        [createPassResult (Finite 36) (Finite 48) (Finite (1 / 2)) (Finite 0),
         createPassResult (Finite 30) (Finite 40) (Finite (1 / 2)) (Finite 1),
         createPassResult (Finite 36) (Finite 48) (Finite (1 / 2)) (Finite 2)]
       = Inr \<lparr>recommend = False, reason = ''Maximum passes reached''\<rparr>
   \<and> shouldRecommendAdditionalPass 2
        [createPassResult (Finite 36) (Finite 48) (Finite (1 / 2)) (Finite 0),
         createPassResult (Finite 30) (Finite 40) (Finite (3 / 4)) (Finite 1)]
       = Inr \<lparr>recommend = True,
              reason = ''Low confidence - an additional pass may improve accuracy''\<rparr>
   \<and> shouldRecommendAdditionalPass 2
        [createPassResult (Finite 36) (Finite 48) (Finite (3 / 4)) (Finite 0),
         createPassResult (Finite (73 / 2)) (Finite (99 / 2)) (Finite (3 / 4)) (Finite 1)]
       = Inr \<lparr>recommend = True,
              reason = ''Measurements vary between passes - an additional pass may help''\<rparr>
   \<and> shouldRecommendAdditionalPass 2
        [createPassResult (Finite 36) (Finite 48) (Finite (3 / 4)) (Finite 0),
         createPassResult (Finite 37) (Finite (97 / 2)) (Finite (3 / 4)) (Finite 1)]
       = Inr \<lparr>recommend = False, reason = ''Measurements look good''\<rparr>
   \<and> shouldRecommendAdditionalPass 2
        [createPassResult (Finite 36) (Finite 48) (Finite (3 / 4)) (Finite 0)]
       = Inr \<lparr>recommend = False, reason = ''Measurements look good''\<rparr>"
proof -
  have f: "fl (1 / 2) = Finite (1 / 2)" "fl (3 / 4) = Finite (3 / 4)" "fl (5 / 4) = Finite (5 / 4)"
    "fl (5 / 8) = Finite (5 / 8)" "fl (3 / 2) = Finite (3 / 2)" "fl 1 = Finite 1"
    "fl (1 / 2) = Finite (1 / 2)"
    using fl_dyadic [of 1 1] fl_dyadic [of 3 2] fl_dyadic [of 5 2] fl_dyadic [of 5 3]
      fl_dyadic [of 3 1] fl_dyadic [of 1 0]
    by simp_all
  have n: "length_number [a] = Finite 1" "length_number [a, b] = Finite 2" for a b :: PassResult
    using length_number_small [of "[a]"] length_number_small [of "[a, b]"] by simp_all
  note s = Let_def createPassResult_def lit_0 lit_1 lit_13_20 f n Math_max_pair max2_def min2_def
    gt_def fsub_def
  have 1: "shouldRecommendAdditionalPass 2 [] = Inr \<lparr>recommend = False, reason = ''No passes yet''\<rparr>"
    using shouldRecommendAdditionalPass_chain [of 2 "[]"] by (simp add: s)
  have 2: "shouldRecommendAdditionalPass 2
        [createPassResult (Finite 36) (Finite 48) (Finite (1 / 2)) (Finite 0),
         createPassResult (Finite 30) (Finite 40) (Finite (1 / 2)) (Finite 1),
         createPassResult (Finite 36) (Finite 48) (Finite (1 / 2)) (Finite 2)]
       = Inr \<lparr>recommend = False, reason = ''Maximum passes reached''\<rparr>"
    using shouldRecommendAdditionalPass_chain [of 2
        "[createPassResult (Finite 36) (Finite 48) (Finite (1 / 2)) (Finite 0),
         createPassResult (Finite 30) (Finite 40) (Finite (1 / 2)) (Finite 1),
         createPassResult (Finite 36) (Finite 48) (Finite (1 / 2)) (Finite 2)]"]
    by (simp add: Let_def)
  have 3: "shouldRecommendAdditionalPass 2
        [createPassResult (Finite 36) (Finite 48) (Finite (1 / 2)) (Finite 0),
         createPassResult (Finite 30) (Finite 40) (Finite (3 / 4)) (Finite 1)]
       = Inr \<lparr>recommend = True,
              reason = ''Low confidence - an additional pass may improve accuracy''\<rparr>"
    using shouldRecommendAdditionalPass_chain [of 2
        "[createPassResult (Finite 36) (Finite 48) (Finite (1 / 2)) (Finite 0),
         createPassResult (Finite 30) (Finite 40) (Finite (3 / 4)) (Finite 1)]"]
    by (simp add: s)
  have 4: "shouldRecommendAdditionalPass 2
        [createPassResult (Finite 36) (Finite 48) (Finite (3 / 4)) (Finite 0),
         createPassResult (Finite (73 / 2)) (Finite (99 / 2)) (Finite (3 / 4)) (Finite 1)]
       = Inr \<lparr>recommend = True,
              reason = ''Measurements vary between passes - an additional pass may help''\<rparr>"
    using shouldRecommendAdditionalPass_chain [of 2
        "[createPassResult (Finite 36) (Finite 48) (Finite (3 / 4)) (Finite 0),
         createPassResult (Finite (73 / 2)) (Finite (99 / 2)) (Finite (3 / 4)) (Finite 1)]"]
    by (simp add: s)
  have 5: "shouldRecommendAdditionalPass 2
        [createPassResult (Finite 36) (Finite 48) (Finite (3 / 4)) (Finite 0),
         createPassResult (Finite 37) (Finite (97 / 2)) (Finite (3 / 4)) (Finite 1)]
       = Inr \<lparr>recommend = False, reason = ''Measurements look good''\<rparr>"
    using shouldRecommendAdditionalPass_chain [of 2
        "[createPassResult (Finite 36) (Finite 48) (Finite (3 / 4)) (Finite 0),
         createPassResult (Finite 37) (Finite (97 / 2)) (Finite (3 / 4)) (Finite 1)]"]
    by (simp add: s)
  have 6: "shouldRecommendAdditionalPass 2
        [createPassResult (Finite 36) (Finite 48) (Finite (3 / 4)) (Finite 0)]
       = Inr \<lparr>recommend = False, reason = ''Measurements look good''\<rparr>"
    using shouldRecommendAdditionalPass_chain [of 2
        "[createPassResult (Finite 36) (Finite 48) (Finite (3 / 4)) (Finite 0)]"]
    by (simp add: s)
  from 1 2 3 4 5 6 show ?thesis by simp
qed

text \<open>
  The claim as the specification words it, with the mean confidence and the ranges as
  exact quantities, fails twice. With the confidences \<^verbatim>\<open>0.3\<close> and \<^verbatim>\<open>1\<close> the mean of
  the two doubles is under 0.65, yet the rounded average is not under the double
  \<^verbatim>\<open>0.65\<close> and the measurements are reported to look good. With the widths
  \<open>1 + 2^(-52)\<close> and \<open>255 * 2^(-60)\<close> the range \<open>1 + 2^(-60)\<close> exceeds 1, yet the
  subtraction rounds it to 1 and the measurements are reported to look good.
\<close>

theorem shouldRecommendAdditionalPass_rounded_tests:
  "PassResult_page.confidence (createPassResult (lit 36) (lit 48) (lit (3 / 10)) (lit 0))
     = Finite (5404319552844595 / 18014398509481984)
   \<and> PassResult_page.confidence (createPassResult (lit 36) (lit 48) (lit 1) (lit 0)) = Finite 1
   \<and> shouldRecommendAdditionalPass 2
        [createPassResult (lit 36) (lit 48) (lit (3 / 10)) (lit 0),
         createPassResult (lit 36) (lit 48) (lit 1) (lit 0)]
       = Inr \<lparr>recommend = False, reason = ''Measurements look good''\<rparr>
   \<and> (5404319552844595 / 18014398509481984 + 1) / 2 < (65 / 100 :: real)
   \<and> is_double (4503599627370497 / 4503599627370496)
   \<and> is_double (255 / 1152921504606846976)
   \<and> shouldRecommendAdditionalPass 2
        [createPassResult (Finite (4503599627370497 / 4503599627370496)) (lit 48) (lit 1) (lit 0),
         createPassResult (Finite (255 / 1152921504606846976)) (lit 48) (lit 1) (lit 0)]
       = Inr \<lparr>recommend = False, reason = ''Measurements look good''\<rparr>
   \<and> 4503599627370497 / 4503599627370496 - 255 / 1152921504606846976 > (1 :: real)"
proof -
  have z: "fl (5404319552844595 / 18014398509481984) = Finite (5404319552844595 / 18014398509481984)"
    using fl_dyadic [of 5404319552844595 54] by simp
  have f: "fl 0 = Finite 0" "fl 1 = Finite 1" "fl 2 = Finite 2"
    using fl_dyadic [of 0 0] fl_dyadic [of 1 0] fl_dyadic [of 2 0] by simp_all
  have d: "is_double (4503599627370497 / 4503599627370496)"
    "is_double (255 / 1152921504606846976)"
    using fl_dyadic [of 4503599627370497 52] fl_dyadic [of 255 60] by (simp_all add: is_double_def)
  have n: "length_number [a, b] = Finite 2" for a b :: PassResult
    using length_number_small [of "[a, b]"] by simp
  note s = Let_def createPassResult_def lit_0 lit_1 lit_13_20 lit_36 lit_48 lit_3_10 f n
    Math_max_pair max2_def min2_def gt_def fsub_def z sum_3_10_1 half_13_10 fl_one_and_a_bit
  have 1: "shouldRecommendAdditionalPass 2
        [createPassResult (lit 36) (lit 48) (lit (3 / 10)) (lit 0),
         createPassResult (lit 36) (lit 48) (lit 1) (lit 0)]
       = Inr \<lparr>recommend = False, reason = ''Measurements look good''\<rparr>"
    using shouldRecommendAdditionalPass_unfold [of 2
        "[createPassResult (lit 36) (lit 48) (lit (3 / 10)) (lit 0),
          createPassResult (lit 36) (lit 48) (lit 1) (lit 0)]"]
    by (simp add: s)
  have 2: "shouldRecommendAdditionalPass 2
        [createPassResult (Finite (4503599627370497 / 4503599627370496)) (lit 48) (lit 1) (lit 0),
         createPassResult (Finite (255 / 1152921504606846976)) (lit 48) (lit 1) (lit 0)]
       = Inr \<lparr>recommend = False, reason = ''Measurements look good''\<rparr>"
    using shouldRecommendAdditionalPass_unfold [of 2
        "[createPassResult (Finite (4503599627370497 / 4503599627370496)) (lit 48) (lit 1) (lit 0),
          createPassResult (Finite (255 / 1152921504606846976)) (lit 48) (lit 1) (lit 0)]"]
    by (simp add: s)
  from 1 2 d show ?thesis by (simp add: createPassResult_def lit_3_10 lit_1)
qed

text \<open>
  C4. On the empty sequence \<open>aggregateResults\<close> returns a result, with both dimensions,
  the average confidence and the pass count zero and the category Not Great.
\<close>

theorem aggregateResults_empty:
  "aggregateResults argLimit [] =
     Inr \<lparr>widthInches = Finite 0, heightInches = Finite 0, averageConfidence = Finite 0,
           category = NotGreat, passCount = 0, passes = []\<rparr>"
  by (simp add: aggregateResults_def lit_0)

text \<open>
  C5. With three passes or more, whatever their confidences and dimensions, no further
  pass is recommended and the reason contains \<open>Maximum passes\<close>. A session only adds
  passes at the end, so this holds in every later state of a session that has reached
  three passes.
\<close>

theorem shouldRecommendAdditionalPass_cap:
  "3 \<le> length ps \<Longrightarrow>
   shouldRecommendAdditionalPass argLimit (foldl appendPass ps later)
     = Inr \<lparr>recommend = False, reason = ''Maximum passes reached''\<rparr>
   \<and> (case shouldRecommendAdditionalPass argLimit (foldl appendPass ps later) of
        Inl e \<Rightarrow> False
      | Inr r \<Rightarrow> recommend r = False \<and> sublist ''Maximum passes'' (reason r))"
proof -
  assume "3 \<le> length ps"
  then have len: "3 \<le> length (foldl appendPass ps later)"
    by (simp add: foldl_appendPass)
  then have "shouldRecommendAdditionalPass argLimit (foldl appendPass ps later)
               = Inr \<lparr>recommend = False, reason = ''Maximum passes reached''\<rparr>"
    by (auto simp add: shouldRecommendAdditionalPass_def)
  then show ?thesis
    by (simp add: sublist_Cons_right)
qed

theorem shouldRecommendAdditionalPass_cap_witness:
  "3 \<le> length [createPassResult (Finite 36) (Finite 48) (Finite (1 / 2)) (Finite 0),
                 createPassResult (Finite 30) (Finite 40) (Finite (1 / 2)) (Finite 1),
                 createPassResult (Finite 36) (Finite 48) (Finite (1 / 2)) (Finite 2)]
   \<and> shouldRecommendAdditionalPass 0
        [createPassResult (Finite 36) (Finite 48) (Finite (1 / 2)) (Finite 0),
         createPassResult (Finite 30) (Finite 40) (Finite (1 / 2)) (Finite 1),
         createPassResult (Finite 36) (Finite 48) (Finite (1 / 2)) (Finite 2),
         createPassResult (Finite 36) (Finite 48) (Finite (1 / 8)) (Finite 3)]
       = Inr \<lparr>recommend = False, reason = ''Maximum passes reached''\<rparr>
   \<and> sublist ''Maximum passes'' ''Maximum passes reached''"
  using shouldRecommendAdditionalPass_cap
    [of "[createPassResult (Finite 36) (Finite 48) (Finite (1 / 2)) (Finite 0),
          createPassResult (Finite 30) (Finite 40) (Finite (1 / 2)) (Finite 1),
          createPassResult (Finite 36) (Finite 48) (Finite (1 / 2)) (Finite 2)]" 0
        "[createPassResult (Finite 36) (Finite 48) (Finite (1 / 8)) (Finite 3)]"]
  by (simp add: appendPass_def)



text \<open>
  C9. Run on a store, \<open>aggregateResults\<close> and \<open>shouldRecommendAdditionalPass\<close> leave the
  passed-in sequence and its pass records as they were and return the outcome of the pure
  function of the sequence; so a second call on the same input has the same outcome.
\<close>

theorem aggregation_reads_only:
  "run_state (aggregateResults_on_store argLimit) ps = (aggregateResults argLimit ps, ps)
   \<and> run_state (shouldRecommendAdditionalPass_on_store argLimit) ps
       = (shouldRecommendAdditionalPass argLimit ps, ps)
   \<and> run_state (do { a \<leftarrow> aggregateResults_on_store argLimit;
                      b \<leftarrow> aggregateResults_on_store argLimit;
                      State_Monad.return (a, b) }) ps
       = ((aggregateResults argLimit ps, aggregateResults argLimit ps), ps)
   \<and> run_state (do { a \<leftarrow> shouldRecommendAdditionalPass_on_store argLimit;
                      b \<leftarrow> shouldRecommendAdditionalPass_on_store argLimit;
                      State_Monad.return (a, b) }) ps
       = ((shouldRecommendAdditionalPass argLimit ps, shouldRecommendAdditionalPass argLimit ps), ps)"
proof -
  have a: "run_state (aggregateResults_on_store argLimit) ps = (aggregateResults argLimit ps, ps)"
    by (simp add: aggregateResults_on_store_def aggregateResults_def array_length_def
        array_map_def array_reduce_def reduce_def length_number_def Let_def split: sum.splits)
  have b: "run_state (shouldRecommendAdditionalPass_on_store argLimit) ps
             = (shouldRecommendAdditionalPass argLimit ps, ps)"
    by (simp add: shouldRecommendAdditionalPass_on_store_def shouldRecommendAdditionalPass_def
        array_length_def array_map_def array_reduce_def reduce_def length_number_def Let_def
        split: sum.splits)
  show ?thesis by (simp add: a b)
qed

end
